theory Spec2Isabelle
  imports Complex_Main "HOL-Library.Sublist"
begin

section \<open>Numbers and errors\<close>

text \<open>
  The program is Python 3 on PyTorch. Its numbers are Python floats, Python ints and
  float tensors; they are modelled by exact reals (\<^typ>\<open>real\<close>) and integers, so rounding,
  infinities and NaN are outside the model. Every exception the modelled lines can raise is
  a value of \<open>error\<close>; a function that can raise returns \<open>error + 'a\<close> with \<open>Inl\<close> for the
  exception. Nothing in the program catches an exception, so an \<open>Inl\<close> ends the run.
\<close>

datatype error =
    ValueError string
  | ZeroDivisionError
  | IndexError
  | RuntimeError

section \<open>AverageMeter\<close>

text \<open>
  \<^verbatim>\<open>class AverageMeter\<close>: the four fields \<open>val\<close>, \<open>avg\<close>, \<open>sum\<close>, \<open>count\<close>. The field
  \<open>sum\<close> is named \<open>sum_acc\<close> here, \<open>sum\<close> being HOL's summation operator.
\<close>

record AverageMeter =
  val :: real
  avg :: real
  sum_acc :: real
  count :: real

text \<open>\<^verbatim>\<open>reset\<close> assigns 0 to each field, whatever the object held before.\<close>

definition reset :: "AverageMeter \<Rightarrow> AverageMeter" where
  "reset m = m\<lparr>val := 0, avg := 0, sum_acc := 0, count := 0\<rparr>"

text \<open>
  \<^verbatim>\<open>__init__\<close> calls \<^verbatim>\<open>reset\<close> on the new object, which has no field yet: the record
  handed to \<open>reset\<close> here is immaterial.
\<close>

definition AverageMeter_init :: AverageMeter where
  "AverageMeter_init = reset \<lparr>val = 0, avg = 0, sum_acc = 0, count = 0\<rparr>"

text \<open>
  \<^verbatim>\<open>update(val, n=1)\<close>: three assignments, then the division \<^verbatim>\<open>self.sum / self.count\<close>,
  which raises \<^verbatim>\<open>ZeroDivisionError\<close> in Python when \<open>count\<close> is zero.
\<close>

definition update :: "AverageMeter \<Rightarrow> real \<Rightarrow> real \<Rightarrow> error + AverageMeter" where
  "update m v n =
     (let m1 = m\<lparr>val := v\<rparr>;
          m2 = m1\<lparr>sum_acc := sum_acc m1 + v * n\<rparr>;
          m3 = m2\<lparr>count := count m2 + n\<rparr>
      in if count m3 = 0 then Inl ZeroDivisionError
         else Inr (m3\<lparr>avg := sum_acc m3 / count m3\<rparr>))"

text \<open>The default argument \<^verbatim>\<open>n=1\<close>.\<close>

definition update1 :: "AverageMeter \<Rightarrow> real \<Rightarrow> error + AverageMeter" where
  "update1 m v = update m v 1"

text \<open>A sequence of calls \<^verbatim>\<open>update(v, n)\<close> on one tracker; the first exception ends it.\<close>

fun updates :: "AverageMeter \<Rightarrow> (real \<times> real) list \<Rightarrow> error + AverageMeter" where
  "updates m [] = Inr m"
| "updates m ((v, n) # ps) =
     (case update m v n of Inl e \<Rightarrow> Inl e | Inr m' \<Rightarrow> updates m' ps)"

text \<open>The quantities the specification compares the fields with.\<close>

definition weighted_sum :: "(real \<times> real) list \<Rightarrow> real" where
  "weighted_sum ps = (\<Sum>(v, n)\<leftarrow>ps. v * n)"

definition total_weight :: "(real \<times> real) list \<Rightarrow> real" where
  "total_weight ps = (\<Sum>(v, n)\<leftarrow>ps. n)"

section \<open>Floating-point rounding\<close>

text \<open>
  Where a claim depends on the rounding of the program's floating-point numbers, the
  rounding is modelled: \<open>fl_round p x\<close> is the number with a significand of \<open>p\<close> bits nearest
  to \<open>x\<close>, ties going to the even significand (IEEE 754 round-to-nearest-even). \<open>f32\<close> is
  the rounding of a \<^verbatim>\<open>FloatTensor\<close> entry, \<open>f64\<close> that of a Python float. The exponent range
  is not bounded: overflow and subnormal numbers do not occur at the magnitudes met here.
\<close>

text \<open>The nearest integer, a tie going to the even one.\<close>

definition rhe :: "real \<Rightarrow> int" where
  "rhe x =
     (let f = \<lfloor>x\<rfloor>; d = x - of_int f
      in if d < 1 / 2 then f else if 1 / 2 < d then f + 1 else if even f then f else f + 1)"

text \<open>The exponent \<open>e\<close> with \<open>2 ^ e \<le> \<bar>x\<bar> < 2 ^ (e + 1)\<close>.\<close>

definition binade :: "real \<Rightarrow> int" where
  "binade x = (if x = 0 then 0 else \<lfloor>log 2 \<bar>x\<bar>\<rfloor>)"

definition fl_round :: "nat \<Rightarrow> real \<Rightarrow> real" where
  "fl_round p x =
     (if x = 0 then 0
      else let u = 2 powi (binade x - int p + 1)
           in sgn x * of_int (rhe (\<bar>x\<bar> / u)) * u)"

definition f32 :: "real \<Rightarrow> real" where "f32 = fl_round 24"
definition f64 :: "real \<Rightarrow> real" where "f64 = fl_round 53"

section \<open>Tensors and the PyTorch primitives the program calls\<close>

text \<open>
  A float tensor of shape \<open>[rows, columns]\<close> is the list of its rows. The PyTorch and Python
  library functions below are not code of the repository; each is modelled from its
  documented behaviour, with the exception it raises as an \<open>Inl\<close>.
\<close>

type_synonym matrix = "real list list"

text \<open>
  \<^verbatim>\<open>F.log_softmax(x, dim=1)\<close>: each entry minus the logarithm of the sum of the exponentials
  of its row.
\<close>

definition log_softmax :: "matrix \<Rightarrow> matrix" where
  "log_softmax x = map (\<lambda>row. map (\<lambda>v. v - ln (\<Sum>u\<leftarrow>row. exp u)) row) x"

text \<open>
  The same on float32 tensors, as far as rounding goes: the logarithm of the sum of the
  exponentials is a float32 number, and each entry of the result is the float32 nearest to
  the difference. (PyTorch's kernels reach that logarithm through further rounded steps,
  which are left out.) \<open>same_order\<close> says that two rows compare their entries alike.
\<close>

definition log_softmax_f32 :: "matrix \<Rightarrow> matrix" where
  "log_softmax_f32 x =
     map (\<lambda>row. let logsum = f32 (ln (\<Sum>u\<leftarrow>row. exp u)) in map (\<lambda>v. f32 (v - logsum)) row) x"

definition same_order :: "real list \<Rightarrow> real list \<Rightarrow> bool" where
  "same_order xs ys \<longleftrightarrow>
     length xs = length ys \<and>
     (\<forall>i<length xs. \<forall>j<length xs. (xs ! i \<le> xs ! j) = (ys ! i \<le> ys ! j))"

text \<open>
  \<^verbatim>\<open>Tensor.topk(k, 1, True, True)\<close> returns, for each row, the indices of its \<open>k\<close> largest
  entries, largest first. PyTorch does not say in which order equal entries come, so the
  row-wise selection is a parameter \<open>sel\<close> of the model: \<open>sel k row\<close> is the index list PyTorch
  returns for one row. \<open>topk_sound\<close> is what every such selection satisfies: \<open>k\<close> distinct
  positions of the row. \<open>topk_order_determined\<close> says that the selection looks at the entries
  only through comparisons, as a selection by sorting does.
\<close>

definition topk_sound :: "(nat \<Rightarrow> real list \<Rightarrow> nat list) \<Rightarrow> bool" where
  "topk_sound sel \<longleftrightarrow>
     (\<forall>k row. 1 \<le> k \<and> k \<le> length row \<longrightarrow>
        length (sel k row) = k \<and> distinct (sel k row) \<and> (\<forall>i\<in>set (sel k row). i < length row))"

definition topk_order_determined :: "(nat \<Rightarrow> real list \<Rightarrow> nat list) \<Rightarrow> bool" where
  "topk_order_determined sel \<longleftrightarrow>
     (\<forall>k xs ys. length xs = length ys \<and>
        (\<forall>i<length xs. \<forall>j<length xs. (xs ! i \<le> xs ! j) = (ys ! i \<le> ys ! j)) \<longrightarrow>
        sel k xs = sel k ys)"

text \<open>
  One such selection, used to run the model on concrete inputs: sort the positions by
  decreasing entry, equal entries by increasing position, and keep the first \<open>k\<close>.
\<close>

definition topk_stable :: "nat \<Rightarrow> real list \<Rightarrow> nat list" where
  "topk_stable k row = take k (sort_key (\<lambda>i. - (row ! i)) [0..<length row])"

text \<open>
  The call on a \<open>[batch, classes]\<close> tensor. The PyTorch of this program (it still has
  \<^verbatim>\<open>volatile\<close> and \<^verbatim>\<open>async\<close>) checks \<^verbatim>\<open>k > 0 && k <= size\<close> and raises otherwise.
\<close>

definition torch_topk :: "(nat \<Rightarrow> real list \<Rightarrow> nat list) \<Rightarrow> int \<Rightarrow> matrix \<Rightarrow> error + nat list list" where
  "torch_topk sel k x =
     (if k < 1 \<or> (\<exists>row\<in>set x. int (length row) < k) then Inl RuntimeError
      else Inr (map (sel (nat k)) x))"

text \<open>\<^verbatim>\<open>pred.t()\<close> of a tensor of shape \<open>[batch, ncols]\<close>: shape \<open>[ncols, batch]\<close>.\<close>

definition tensor_t :: "nat \<Rightarrow> 'a list list \<Rightarrow> 'a list list" where
  "tensor_t ncols x = map (\<lambda>j. map (\<lambda>row. row ! j) x) [0..<ncols]"

text \<open>
  \<^verbatim>\<open>target.view(1, -1).expand_as(pred)\<close> for \<open>pred\<close> of shape \<open>[maxk, batch]\<close>: every row of the
  expansion is the row computed here. A dimension expands when the sizes agree or the
  source has size 1; otherwise PyTorch raises.
\<close>

definition expand_as_row :: "int list \<Rightarrow> nat \<Rightarrow> error + int list" where
  "expand_as_row target batch =
     (if length target = batch then Inr target
      else if length target = 1 then Inr (replicate batch (hd target))
      else Inl RuntimeError)"

text \<open>Python's \<^verbatim>\<open>max\<close> of a tuple of integers, and the slice \<^verbatim>\<open>xs[:k]\<close>.\<close>

definition py_max :: "int list \<Rightarrow> error + int" where
  "py_max ks =
     (case ks of [] \<Rightarrow> Inl (ValueError ''max() arg is an empty sequence'')
      | k # ks' \<Rightarrow> Inr (fold max ks' k))"

definition py_slice_to :: "int \<Rightarrow> 'a list \<Rightarrow> 'a list" where
  "py_slice_to k xs = (if 0 \<le> k then take (nat k) xs else take (length xs - nat (- k)) xs)"

section \<open>accuracy\<close>

text \<open>
  \<^verbatim>\<open>correct[:k].view(-1).float().sum(0)\<close>: the first \<open>k\<close> rows flattened, each boolean as 0 or
  1, summed.
\<close>

definition correct_k :: "bool list list \<Rightarrow> int \<Rightarrow> real" where
  "correct_k correct k = (\<Sum>b\<leftarrow>concat (py_slice_to k correct). of_bool b)"

text \<open>
  The loop \<^verbatim>\<open>for k in topk\<close>. \<^verbatim>\<open>100.0 / batch_size\<close> is a division of Python floats, which
  raises when the batch is empty; \<^verbatim>\<open>mul_\<close> converts the quotient to the tensor's float32 and
  multiplies in float32. The count itself is exact (a float32 sum of zeros and ones is,
  below \<open>2 ^ 24\<close> entries).
\<close>

fun accuracy_loop :: "bool list list \<Rightarrow> nat \<Rightarrow> int list \<Rightarrow> error + real list" where
  "accuracy_loop correct batch_size [] = Inr []"
| "accuracy_loop correct batch_size (k # ks) =
     (if batch_size = 0 then Inl ZeroDivisionError
      else case accuracy_loop correct batch_size ks of
             Inl e \<Rightarrow> Inl e
           | Inr res \<Rightarrow>
               Inr (f32 (correct_k correct k * f32 (f64 (100 / real batch_size))) # res))"

text \<open>
  \<^verbatim>\<open>accuracy(output, target, topk)\<close>. Labels are the integers of a \<^verbatim>\<open>LongTensor\<close>; the ranks
  are Python integers.
\<close>

definition accuracy ::
  "(nat \<Rightarrow> real list \<Rightarrow> nat list) \<Rightarrow> matrix \<Rightarrow> int list \<Rightarrow> int list \<Rightarrow> error + real list" where
  "accuracy sel output target topk =
     (case py_max topk of
        Inl e \<Rightarrow> Inl e
      | Inr maxk \<Rightarrow>
          let batch_size = length target in
          case torch_topk sel maxk output of
            Inl e \<Rightarrow> Inl e
          | Inr pred \<Rightarrow>
              let pred_t = tensor_t (nat maxk) pred in
              case expand_as_row target (length output) of
                Inl e \<Rightarrow> Inl e
              | Inr trow \<Rightarrow>
                  let correct = map (\<lambda>prow. map2 (\<lambda>p t. int p = t) prow trow) pred_t
                  in accuracy_loop correct batch_size topk)"

section \<open>Batches and the model\<close>

text \<open>
  The loader yields \<^verbatim>\<open>(input, target, name)\<close>. \<open>input\<close> has shape
  \<open>[batch, segments, channels, height, width]\<close>: a list of clips, each a list of \<open>segments\<close>
  images of an unspecified type \<open>'img\<close>. \<open>size1\<close> is the size of the segment dimension,
  which the list of clips alone would not tell for an empty batch.
\<close>

record 'img tensor5 =
  size1 :: nat
  items :: "'img list list"

text \<open>\<^verbatim>\<open>input.size(0)\<close>.\<close>

definition size0 :: "'img tensor5 \<Rightarrow> nat" where
  "size0 x = length (items x)"

text \<open>
  \<^verbatim>\<open>input_var[:, i, :, :, :]\<close> for an index \<open>i\<close> of \<^verbatim>\<open>range(...)\<close>, hence not negative:
  PyTorch raises \<^verbatim>\<open>IndexError\<close> when \<open>i\<close> is not below the size of the dimension.
\<close>

definition select1 :: "'img tensor5 \<Rightarrow> nat \<Rightarrow> error + 'img list" where
  "select1 x i = (if i < size1 x then Inr (map (\<lambda>clip. clip ! i) (items x)) else Inl IndexError)"

text \<open>
  The model is a collaborator outside the repository's training script: a function from
  its input tensor to a \<open>[batch, classes]\<close> matrix of logits. The script hands it tensors
  of two shapes: \<open>[batch, channels, height, width]\<close> in \<^verbatim>\<open>train\<close> (\<open>Frames\<close>) and the whole
  five-dimensional batch in \<^verbatim>\<open>validate\<close> (\<open>Clips\<close>). The loss criterion is a function of
  the output and the labels.
\<close>

datatype 'img model_input = Frames "'img list" | Clips "'img tensor5"

type_synonym 'img model = "'img model_input \<Rightarrow> matrix"

type_synonym criterion = "matrix \<Rightarrow> int list \<Rightarrow> real"

type_synonym 'img batch = "'img tensor5 \<times> int list \<times> string list"

section \<open>The forward pass of train\<close>

text \<open>\<^verbatim>\<open>range(n)\<close> for a Python integer \<open>n\<close>: empty when \<open>n\<close> is not positive.\<close>

definition py_range :: "int \<Rightarrow> nat list" where
  "py_range n = [0..<nat n]"

text \<open>The comprehension \<^verbatim>\<open>[model(input_var[:, i, :, :, :]) for i in range(args.num_segments)]\<close>.\<close>

fun segment_outputs :: "'img model \<Rightarrow> 'img tensor5 \<Rightarrow> nat list \<Rightarrow> error + matrix list" where
  "segment_outputs model x [] = Inr []"
| "segment_outputs model x (i # is) =
     (case select1 x i of
        Inl e \<Rightarrow> Inl e
      | Inr xi \<Rightarrow>
          let out = model (Frames xi)
          in case segment_outputs model x is of
               Inl e \<Rightarrow> Inl e
             | Inr outs \<Rightarrow> Inr (out # outs))"

text \<open>
  \<^verbatim>\<open>torch.stack\<close> of a list of matrices: a tensor of shape \<open>[segments, batch, classes]\<close>, the
  list itself. PyTorch raises on an empty list and on matrices of different shapes.
\<close>

definition torch_stack :: "matrix list \<Rightarrow> error + matrix list" where
  "torch_stack ts =
     (if ts = [] then Inl RuntimeError
      else if \<forall>t\<in>set ts. map length t = map length (hd ts) then Inr ts
      else Inl RuntimeError)"

text \<open>\<^verbatim>\<open>torch.mean(output, dim=0)\<close> of a stacked tensor: the mean over the first axis.\<close>

definition torch_mean0 :: "matrix list \<Rightarrow> matrix" where
  "torch_mean0 ts =
     map (\<lambda>b. map (\<lambda>c. (\<Sum>t\<leftarrow>ts. t ! b ! c) / real (length ts)) [0..<length (hd ts ! b)])
       [0..<length (hd ts)]"

text \<open>Lines 161 to 163 of \<^verbatim>\<open>train\<close>: the stacked segment outputs and their mean.\<close>

definition train_logits :: "'img model \<Rightarrow> int \<Rightarrow> 'img tensor5 \<Rightarrow> error + matrix" where
  "train_logits model num_segments x =
     (case segment_outputs model x (py_range num_segments) of
        Inl e \<Rightarrow> Inl e
      | Inr outs \<Rightarrow>
          (case torch_stack outs of
             Inl e \<Rightarrow> Inl e
           | Inr output \<Rightarrow> Inr (torch_mean0 output)))"

text \<open>Line 164: \<^verbatim>\<open>output = F.log_softmax(output, dim=1)\<close>.\<close>

definition train_output :: "'img model \<Rightarrow> int \<Rightarrow> 'img tensor5 \<Rightarrow> error + matrix" where
  "train_output model num_segments x =
     (case train_logits model num_segments x of
        Inl e \<Rightarrow> Inl e
      | Inr output \<Rightarrow> Inr (log_softmax output))"

text \<open>Line 165: \<^verbatim>\<open>loss = criterion(output, target_var)\<close>.\<close>

definition train_loss :: "'img model \<Rightarrow> criterion \<Rightarrow> int \<Rightarrow> 'img tensor5 \<Rightarrow> int list \<Rightarrow> error + real" where
  "train_loss model criterion num_segments x target =
     (case train_output model num_segments x of
        Inl e \<Rightarrow> Inl e
      | Inr output \<Rightarrow> Inr (criterion output target))"

text \<open>
  The three trackers \<^verbatim>\<open>losses\<close>, \<^verbatim>\<open>top1\<close>, \<^verbatim>\<open>top5\<close> and lines 169 to 171 (223 to 225 in
  \<^verbatim>\<open>validate\<close>): each is updated with weight \<^verbatim>\<open>input.size(0)\<close>. The trackers of wall-clock
  times and the printing are left out.
\<close>

type_synonym meters = "AverageMeter \<times> AverageMeter \<times> AverageMeter"

definition record_metrics :: "meters \<Rightarrow> real \<Rightarrow> real \<Rightarrow> real \<Rightarrow> nat \<Rightarrow> error + meters" where
  "record_metrics ms loss prec1 prec5 n =
     (case ms of (losses, top1, top5) \<Rightarrow>
        (case update losses loss (real n) of
           Inl e \<Rightarrow> Inl e
         | Inr losses' \<Rightarrow>
             (case update top1 prec1 (real n) of
                Inl e \<Rightarrow> Inl e
              | Inr top1' \<Rightarrow>
                  (case update top5 prec5 (real n) of
                     Inl e \<Rightarrow> Inl e
                   | Inr top5' \<Rightarrow> Inr (losses', top1', top5')))))"

text \<open>
  Lines 161 to 171 of \<^verbatim>\<open>train\<close> for one batch: output, loss, accuracy on the
  log-softmaxed output, trackers. \<^verbatim>\<open>prec1, prec5 = accuracy(...)\<close> unpacks a list of two.
  The backward pass and the optimizer step that follow do not change these values.
\<close>

definition train_batch ::
  "(nat \<Rightarrow> real list \<Rightarrow> nat list) \<Rightarrow> 'img model \<Rightarrow> criterion \<Rightarrow> int \<Rightarrow> 'img batch \<Rightarrow> meters
     \<Rightarrow> error + meters" where
  "train_batch sel model criterion num_segments b ms =
     (case b of (x, target, name) \<Rightarrow>
        (case train_output model num_segments x of
           Inl e \<Rightarrow> Inl e
         | Inr output \<Rightarrow>
             let loss = criterion output target
             in case accuracy sel output target [1, 5] of
                  Inl e \<Rightarrow> Inl e
                | Inr res \<Rightarrow> record_metrics ms loss (res ! 0) (res ! 1) (size0 x)))"

section \<open>validate\<close>

text \<open>
  Lines 211 to 225 for one batch: \<^verbatim>\<open>output = model(input_var)\<close> on the batch as the
  loader gave it, the loss and the accuracy on that output, the trackers.
\<close>

definition validate_batch ::
  "(nat \<Rightarrow> real list \<Rightarrow> nat list) \<Rightarrow> 'img model \<Rightarrow> criterion \<Rightarrow> 'img batch \<Rightarrow> meters
     \<Rightarrow> error + meters" where
  "validate_batch sel model criterion b ms =
     (case b of (x, target, name) \<Rightarrow>
        let output = model (Clips x);
            loss = criterion output target
        in case accuracy sel output target [1, 5] of
             Inl e \<Rightarrow> Inl e
           | Inr res \<Rightarrow> record_metrics ms loss (res ! 0) (res ! 1) (size0 x))"

text \<open>The loop over \<^verbatim>\<open>val_loader\<close>, and \<^verbatim>\<open>validate\<close>, which returns \<^verbatim>\<open>top1.avg\<close>.\<close>

fun validate_loop ::
  "(nat \<Rightarrow> real list \<Rightarrow> nat list) \<Rightarrow> 'img model \<Rightarrow> criterion \<Rightarrow> 'img batch list \<Rightarrow> meters
     \<Rightarrow> error + meters" where
  "validate_loop sel model criterion [] ms = Inr ms"
| "validate_loop sel model criterion (b # bs) ms =
     (case validate_batch sel model criterion b ms of
        Inl e \<Rightarrow> Inl e
      | Inr ms' \<Rightarrow> validate_loop sel model criterion bs ms')"

definition validate ::
  "(nat \<Rightarrow> real list \<Rightarrow> nat list) \<Rightarrow> 'img model \<Rightarrow> criterion \<Rightarrow> 'img batch list \<Rightarrow> error + real" where
  "validate sel model criterion val_loader =
     (case validate_loop sel model criterion val_loader
             (AverageMeter_init, AverageMeter_init, AverageMeter_init) of
        Inl e \<Rightarrow> Inl e
      | Inr (losses, top1, top5) \<Rightarrow> Inr (avg top1))"

text \<open>
  The aggregation the specification describes for training, in closed form, for a batch
  of \<open>B\<close> clips, \<open>C\<close> classes and \<open>n\<close> segments: entry \<open>(b, c)\<close> of the mean over the segments of
  the per-segment logits, then the log-softmax of each row.
\<close>

definition segment_mean :: "'img model \<Rightarrow> nat \<Rightarrow> 'img tensor5 \<Rightarrow> nat \<Rightarrow> nat \<Rightarrow> real" where
  "segment_mean model n x b c =
     (\<Sum>i<n. model (Frames (map (\<lambda>clip. clip ! i) (items x))) ! b ! c) / real n"

definition aggregate_spec :: "'img model \<Rightarrow> nat \<Rightarrow> nat \<Rightarrow> nat \<Rightarrow> 'img tensor5 \<Rightarrow> matrix" where
  "aggregate_spec model n B C x =
     map (\<lambda>b. map (\<lambda>c. segment_mean model n x b c - ln (\<Sum>c'<C. exp (segment_mean model n x b c')))
                [0..<C])
       [0..<B]"

section \<open>Checkpoints and the file system\<close>

text \<open>
  The dictionary \<^verbatim>\<open>save_checkpoint\<close> is given, with its five keys \<^verbatim>\<open>'epoch'\<close>, \<^verbatim>\<open>'arch'\<close>,
  \<^verbatim>\<open>'state_dict'\<close>, \<^verbatim>\<open>'best_prec1'\<close>, \<^verbatim>\<open>'optimizer'\<close>. The model's parameters \<open>'w\<close> and the
  optimizer's state \<open>'o\<close> are opaque.
\<close>

record ('w, 'o) checkpoint =
  ck_epoch :: int
  ck_arch :: string
  ck_state_dict :: 'w
  ck_best_prec1 :: real
  ck_optimizer :: 'o

text \<open>
  The file system as far as the program uses it: a map from paths to the checkpoints stored
  there. \<^verbatim>\<open>os.path.isfile(p)\<close> holds when the map has an entry at \<open>p\<close>, and \<^verbatim>\<open>torch.load(p)\<close>
  returns that entry. Failures of the disk (a missing directory, no space) are outside the
  model.
\<close>

type_synonym ('w, 'o) fs = "string \<rightharpoonup> ('w, 'o) checkpoint"

text \<open>\<^verbatim>\<open>'_'.join((a, b))\<close>.\<close>

definition underscore_join :: "string \<Rightarrow> string \<Rightarrow> string" where
  "underscore_join a b = a @ ''_'' @ b"

text \<open>
  \<^verbatim>\<open>os.path.join(a, b)\<close> of \<^verbatim>\<open>posixpath\<close>: an absolute second component replaces the
  first; otherwise the two are joined by one separator, unless the first is empty or ends
  with one.
\<close>

definition os_path_join :: "string \<Rightarrow> string \<Rightarrow> string" where
  "os_path_join a b =
     (if b \<noteq> [] \<and> hd b = CHR ''/'' then b
      else if a = [] \<or> last a = CHR ''/'' then a @ b
      else a @ ''/'' @ b)"

text \<open>
  \<^verbatim>\<open>os.path.dirname\<close> of \<^verbatim>\<open>posixpath\<close>: the path up to its last separator, without trailing
  separators unless it consists of separators only.
\<close>

definition dirname :: "string \<Rightarrow> string" where
  "dirname p =
     (let head = rev (dropWhile (\<lambda>c. c \<noteq> CHR ''/'') (rev p))
      in if head \<noteq> [] \<and> (\<exists>c\<in>set head. c \<noteq> CHR ''/'')
         then rev (dropWhile (\<lambda>c. c = CHR ''/'') (rev head))
         else head)"

text \<open>The two paths \<^verbatim>\<open>save_checkpoint\<close> computes from \<^verbatim>\<open>args.snapshot_pref\<close>.\<close>

definition checkpoint_path :: "string \<Rightarrow> string" where
  "checkpoint_path pref =
     (let filename = underscore_join pref ''checkpoint.pth.tar''
      in os_path_join ''save_models'' filename)"

definition best_path :: "string \<Rightarrow> string" where
  "best_path pref = underscore_join pref ''model_best.pth.tar''"

text \<open>
  \<^verbatim>\<open>save_checkpoint(state, is_best)\<close> with the default \<^verbatim>\<open>filename\<close>: \<^verbatim>\<open>torch.save\<close> writes the
  state, then \<^verbatim>\<open>shutil.copyfile\<close> copies the file just written when \<open>is_best\<close> holds.
\<close>

definition save_checkpoint ::
  "string \<Rightarrow> ('w, 'o) checkpoint \<Rightarrow> bool \<Rightarrow> ('w, 'o) fs \<Rightarrow> ('w, 'o) fs" where
  "save_checkpoint pref state is_best fs =
     (let filename = checkpoint_path pref;
          fs1 = fs(filename \<mapsto> state)
      in if is_best
         then (let best_name = best_path pref in fs1(best_name := fs1 filename))
         else fs1)"

section \<open>main\<close>

text \<open>The arguments \<^verbatim>\<open>main\<close> reads that decide its control flow. An option that was not
  given (\<^verbatim>\<open>args.finetune\<close>, \<^verbatim>\<open>args.resume\<close>) is the empty string.\<close>

record args =
  dataset :: string
  finetune :: string
  loss_type :: string
  resume :: string
  evaluate :: bool
  start_epoch :: int
  epochs :: int
  eval_freq :: int
  arch :: string
  snapshot_pref :: string

text \<open>
  What \<^verbatim>\<open>main\<close> calls outside this file: the constructor of the network, \<^verbatim>\<open>finetune\<close> of
  \<^verbatim>\<open>utils\<close>, the constructor of the optimizer, and the two passes over the data. \<open>train_fn\<close>
  stands for \<^verbatim>\<open>scheduler.step()\<close> followed by \<^verbatim>\<open>train(...)\<close> for one epoch, \<open>validate_fn\<close> for
  \<^verbatim>\<open>validate(...)\<close>; both may raise.
\<close>

record ('w, 'o) env =
  new_model :: "nat \<Rightarrow> 'w"
  finetune_fn :: "string \<Rightarrow> nat \<Rightarrow> 'w"
  new_optimizer :: "'w \<Rightarrow> 'o"
  train_fn :: "int \<Rightarrow> 'w \<Rightarrow> 'o \<Rightarrow> error + 'w \<times> 'o"
  validate_fn :: "'w \<Rightarrow> error + real"

text \<open>
  The calls with an effect outside the process's variables, in the order the run makes
  them. The history of these calls is kept in the state (\<open>trace\<close>) so that properties of
  the order of the calls and of every checkpoint saved can be stated.
\<close>

datatype ('w, 'o) event =
    CreateModel nat
  | DataParallelCuda
  | LoadFinetune string
  | CreateCriterion
  | CreateOptimizer
  | CreateScheduler
  | LoadCheckpoint string
  | CreateLoaders
  | TrainEpoch int
  | Validate
  | SaveCheckpoint "('w, 'o) checkpoint" bool

text \<open>
  The variables of a run after the set-up: the model's parameters, the optimizer's state,
  the global \<^verbatim>\<open>best_prec1\<close>, the files and the history. When an exception ends the run only
  the history and the files remain (\<open>world\<close>).
\<close>

record ('w, 'o) program =
  model_sd :: 'w
  optim_sd :: 'o
  best_prec1 :: real
  files :: "('w, 'o) fs"
  trace :: "('w, 'o) event list"

type_synonym ('w, 'o) world = "('w, 'o) event list \<times> ('w, 'o) fs"

definition world_of :: "('w, 'o) program \<Rightarrow> ('w, 'o) world" where
  "world_of s = (trace s, files s)"

text \<open>Lines 26 to 35.\<close>

definition num_class_of :: "string \<Rightarrow> error + nat" where
  "num_class_of d =
     (if d = ''ucf101'' then Inr 101
      else if d = ''hmdb51'' then Inr 51
      else if d = ''kinetics'' then Inr 400
      else if d = ''meitu'' then Inr 50
      else Inl (ValueError (''Unknown dataset '' @ d)))"

text \<open>
  Lines 25 to 59: the model is created and placed on the devices, the finetune weights are
  loaded when the file exists, then the loss type is tested; the global \<^verbatim>\<open>best_prec1\<close> is 0.
\<close>

definition main_setup ::
  "args \<Rightarrow> ('w, 'o) env \<Rightarrow> ('w, 'o) fs \<Rightarrow> error \<times> ('w, 'o) world + ('w, 'o) program" where
  "main_setup a env fs =
     (case num_class_of (dataset a) of
        Inl e \<Rightarrow> Inl (e, ([], fs))
      | Inr num_class \<Rightarrow>
          let model = new_model env num_class;
              tr = [CreateModel num_class, DataParallelCuda];
              (model, tr) =
                (if finetune a \<noteq> [] \<and> fs (finetune a) \<noteq> None
                 then (finetune_fn env (finetune a) num_class, tr @ [LoadFinetune (finetune a)])
                 else (model, tr))
          in if loss_type a = ''nll''
             then Inr \<lparr>model_sd = model, optim_sd = new_optimizer env model, best_prec1 = 0,
                       files = fs,
                       trace = tr @ [CreateCriterion, CreateOptimizer, CreateScheduler]\<rparr>
             else Inl (ValueError ''Unknown loss type'', (tr, fs)))"

text \<open>
  Lines 62 to 73: when \<^verbatim>\<open>args.resume\<close> names an existing file, the checkpoint's epoch becomes
  \<^verbatim>\<open>args.start_epoch\<close> and its \<^verbatim>\<open>best_prec1\<close>, parameters and optimizer state replace the
  program's. The result is the start epoch and the program.
\<close>

definition main_resume :: "args \<Rightarrow> ('w, 'o) program \<Rightarrow> int \<times> ('w, 'o) program" where
  "main_resume a s =
     (if resume a \<noteq> [] then
        (case files s (resume a) of
           Some checkpoint \<Rightarrow>
             (ck_epoch checkpoint,
              s\<lparr>best_prec1 := ck_best_prec1 checkpoint,
                model_sd := ck_state_dict checkpoint,
                optim_sd := ck_optimizer checkpoint,
                trace := trace s @ [LoadCheckpoint (resume a)]\<rparr>)
         | None \<Rightarrow> (start_epoch a, s))
      else (start_epoch a, s))"

text \<open>
  Lines 119 to 138, the body of the loop for one \<open>epoch\<close>. \<^verbatim>\<open>(epoch + 1) % args.eval_freq\<close>
  raises when \<^verbatim>\<open>eval_freq\<close> is 0; Python's \<^verbatim>\<open>%\<close> on integers is HOL's \<open>mod\<close>.
\<close>

definition main_epoch ::
  "args \<Rightarrow> ('w, 'o) env \<Rightarrow> int \<Rightarrow> ('w, 'o) program \<Rightarrow> error \<times> ('w, 'o) world + ('w, 'o) program" where
  "main_epoch a env epoch s =
     (let s1 = s\<lparr>trace := trace s @ [TrainEpoch epoch]\<rparr>
      in case train_fn env epoch (model_sd s) (optim_sd s) of
           Inl e \<Rightarrow> Inl (e, world_of s1)
         | Inr (model, optimizer) \<Rightarrow>
             let s2 = s1\<lparr>model_sd := model, optim_sd := optimizer\<rparr>
             in if eval_freq a = 0 then Inl (ZeroDivisionError, world_of s2)
                else if (epoch + 1) mod eval_freq a = 0 \<or> epoch = epochs a - 1 then
                  (let s3 = s2\<lparr>trace := trace s2 @ [Validate]\<rparr>
                   in case validate_fn env model of
                        Inl e \<Rightarrow> Inl (e, world_of s3)
                      | Inr prec1 \<Rightarrow>
                          let is_best = prec1 > best_prec1 s3;
                              best = max prec1 (best_prec1 s3);
                              state = \<lparr>ck_epoch = epoch + 1, ck_arch = arch a,
                                       ck_state_dict = model, ck_best_prec1 = best,
                                       ck_optimizer = optimizer\<rparr>
                          in Inr (s3\<lparr>best_prec1 := best,
                                     files := save_checkpoint (snapshot_pref a) state is_best (files s3),
                                     trace := trace s3 @ [SaveCheckpoint state is_best]\<rparr>))
                else Inr s2)"

text \<open>The loop \<^verbatim>\<open>for epoch in range(args.start_epoch, args.epochs)\<close> over the list of its epochs.\<close>

fun main_loop ::
  "args \<Rightarrow> ('w, 'o) env \<Rightarrow> int list \<Rightarrow> ('w, 'o) program \<Rightarrow> error \<times> ('w, 'o) world + ('w, 'o) program" where
  "main_loop a env [] s = Inr s"
| "main_loop a env (epoch # rest) s =
     (case main_epoch a env epoch s of
        Inl ew \<Rightarrow> Inl ew
      | Inr s' \<Rightarrow> main_loop a env rest s')"

text \<open>
  \<^verbatim>\<open>main\<close>, from the files present at the start: set-up, resume, loaders, then either the
  single evaluation of \<^verbatim>\<open>args.evaluate\<close> or the loop.
\<close>

definition main ::
  "args \<Rightarrow> ('w, 'o) env \<Rightarrow> ('w, 'o) fs \<Rightarrow> error \<times> ('w, 'o) world + ('w, 'o) program" where
  "main a env fs =
     (case main_setup a env fs of
        Inl ew \<Rightarrow> Inl ew
      | Inr s0 \<Rightarrow>
          (case main_resume a s0 of
             (start, s1) \<Rightarrow>
               let s2 = s1\<lparr>trace := trace s1 @ [CreateLoaders]\<rparr>
               in if evaluate a then
                    (let s3 = s2\<lparr>trace := trace s2 @ [Validate]\<rparr>
                     in case validate_fn env (model_sd s3) of
                          Inl e \<Rightarrow> Inl (e, world_of s3)
                        | Inr prec1 \<Rightarrow> Inr s3)
                  else main_loop a env [start..epochs a - 1] s2))"

text \<open>The history at the end of a run, whether it ended by an exception or not, and the
  \<^verbatim>\<open>best_prec1\<close> values of the checkpoints saved, in order.\<close>

definition final_trace ::
  "error \<times> ('w, 'o) world + ('w, 'o) program \<Rightarrow> ('w, 'o) event list" where
  "final_trace r = (case r of Inl (e, (tr, fs)) \<Rightarrow> tr | Inr s \<Rightarrow> trace s)"

fun saved_best :: "('w, 'o) event list \<Rightarrow> real list" where
  "saved_best [] = []"
| "saved_best (SaveCheckpoint state is_best # evs) = ck_best_prec1 state # saved_best evs"
| "saved_best (ev # evs) = saved_best evs"

section \<open>Concrete inputs\<close>

text \<open>
  A small model, a batch of one clip of two segments (an image is a number here) and a
  criterion, on which the definitions are run. \<open>demo_model'\<close> agrees with \<open>demo_model\<close> on
  five-dimensional batches and differs on frames.
\<close>

definition demo_model :: "real model" where
  "demo_model inp =
     (case inp of
        Frames xs \<Rightarrow> map (\<lambda>v. [v, 0, 0, 0, 0]) xs
      | Clips c \<Rightarrow> map (\<lambda>clip. [sum_list clip, 0, 0, 0, 0]) (items c))"

definition demo_model' :: "real model" where
  "demo_model' inp =
     (case inp of
        Frames xs \<Rightarrow> map (\<lambda>v. [0, v, 0, 0, 0]) xs
      | Clips c \<Rightarrow> map (\<lambda>clip. [sum_list clip, 0, 0, 0, 0]) (items c))"

definition demo_input :: "real tensor5" where
  "demo_input = \<lparr>size1 = 2, items = [[1, 3]]\<rparr>"

definition demo_criterion :: criterion where
  "demo_criterion out target = - (out ! 0 ! nat (target ! 0))"

text \<open>A checkpoint of epoch 5 with \<^verbatim>\<open>best_prec1\<close> 42.\<close>

definition demo_checkpoint :: "(nat, nat) checkpoint" where
  "demo_checkpoint =
     \<lparr>ck_epoch = 5, ck_arch = ''shufflenet'', ck_state_dict = 3, ck_best_prec1 = 42,
      ck_optimizer = 4\<rparr>"

text \<open>
  Arguments of a run that resumes from the file \<^verbatim>\<open>ck\<close> and trains up to epoch 7 with an
  evaluation after every epoch, the same with an unknown loss type, and collaborators whose
  validation score is always 30.
\<close>

definition demo_args :: args where
  "demo_args =
     \<lparr>dataset = ''ucf101'', finetune = [], loss_type = ''nll'', resume = ''ck'',
      evaluate = False, start_epoch = 0, epochs = 7, eval_freq = 1, arch = ''shufflenet'',
      snapshot_pref = ''run''\<rparr>"

definition bad_loss_args :: args where
  "bad_loss_args = demo_args\<lparr>loss_type := ''mse''\<rparr>"

definition demo_env :: "(nat, nat) env" where
  "demo_env =
     \<lparr>new_model = (\<lambda>n. 0), finetune_fn = (\<lambda>p n. 1), new_optimizer = (\<lambda>w. 0),
      train_fn = (\<lambda>epoch w opt. Inr (Suc w, Suc opt)), validate_fn = (\<lambda>w. Inr 30)\<rparr>"

definition demo_files :: "(nat, nat) fs" where
  "demo_files = [''ck'' \<mapsto> demo_checkpoint]"

text \<open>A program state whose best score so far is 30, the score \<open>demo_env\<close> returns.\<close>

definition tie_program :: "(nat, nat) program" where
  "tie_program = \<lparr>model_sd = 3, optim_sd = 4, best_prec1 = 30, files = demo_files, trace = []\<rparr>"

text \<open>A validation loader of two batches, the second with a label the model ranks second.\<close>

definition demo_loader :: "real batch list" where
  "demo_loader = [(demo_input, [0], []), (demo_input, [1], [])]"

section \<open>Properties of the rounding\<close>

lemma binade_unique:
  assumes "2 powi e \<le> \<bar>x\<bar>" "\<bar>x\<bar> < 2 powi (e + 1)"
  shows "binade x = e"
proof -
  have pos: "0 < \<bar>x\<bar>" using assms(1) by (smt (verit) zero_less_power_int)
  then have x0: "x \<noteq> 0" by auto
  have "\<lfloor>log 2 \<bar>x\<bar>\<rfloor> = e"
  proof (rule floor_unique)
    have "log 2 (2 powi e) \<le> log 2 \<bar>x\<bar>"
      using assms(1) pos by (subst log_le_cancel_iff) simp_all
    then show "of_int e \<le> log 2 \<bar>x\<bar>"
      by (simp add: powr_real_of_int' [symmetric] log_powr)
    have "log 2 \<bar>x\<bar> < log 2 (2 powi (e + 1))"
      using assms(2) pos by (subst log_less_cancel_iff) simp_all
    then show "log 2 \<bar>x\<bar> < of_int e + 1"
      by (simp add: powr_real_of_int' [symmetric] log_powr)
  qed
  with x0 show ?thesis by (simp add: binade_def)
qed


lemma binade_bounds:
  assumes "x \<noteq> 0"
  shows "2 powi binade x \<le> \<bar>x\<bar>" "\<bar>x\<bar> < 2 powi (binade x + 1)"
proof -
  let ?y = "log 2 \<bar>x\<bar>"
  from assms have pos: "0 < \<bar>x\<bar>" by simp
  have b: "binade x = \<lfloor>?y\<rfloor>" using assms by (simp add: binade_def)
  have "2 powr of_int \<lfloor>?y\<rfloor> \<le> 2 powr ?y" by (rule powr_mono) simp_all
  also have "2 powr ?y = \<bar>x\<bar>" using pos by (rule powr_log_cancel[rotated 2]) simp_all
  finally show "2 powi binade x \<le> \<bar>x\<bar>" by (simp add: b powr_real_of_int')
  have "?y < of_int (\<lfloor>?y\<rfloor> + 1)" by linarith
  then have "2 powr ?y < 2 powr of_int (\<lfloor>?y\<rfloor> + 1)" by (rule powr_less_mono) simp
  also have "2 powr ?y = \<bar>x\<bar>" using pos by (rule powr_log_cancel[rotated 2]) simp_all
  finally have "\<bar>x\<bar> < 2 powr of_int (\<lfloor>?y\<rfloor> + 1)" .
  moreover have "(2 :: real) powr of_int (\<lfloor>?y\<rfloor> + 1) = 2 powi (\<lfloor>?y\<rfloor> + 1)"
    by (rule powr_real_of_int') simp_all
  ultimately show "\<bar>x\<bar> < 2 powi (binade x + 1)" by (simp only: b)
qed

text \<open>The exponent is computed by halving and doubling.\<close>

lemma binade_code [code]:
  "binade x =
     (if x = 0 then 0
      else if 2 \<le> \<bar>x\<bar> then binade (x / 2) + 1
      else if \<bar>x\<bar> < 1 then binade (x * 2) - 1
      else 0)"
proof (cases "x = 0")
  case True
  then show ?thesis by (simp add: binade_def)
next
  case x0: False
  note b = binade_bounds[OF x0]
  show ?thesis
  proof (cases "2 \<le> \<bar>x\<bar>")
    case True
    have "binade (x / 2) = binade x - 1"
    proof (rule binade_unique)
      from b(1) have "2 powi binade x / 2 \<le> \<bar>x\<bar> / 2" by simp
      then show "2 powi (binade x - 1) \<le> \<bar>x / 2\<bar>" by (simp add: power_int_diff)
      from b(2) have "\<bar>x\<bar> / 2 < 2 powi (binade x + 1) / 2" by simp
      then show "\<bar>x / 2\<bar> < 2 powi (binade x - 1 + 1)" by (simp add: power_int_add)
    qed
    with x0 True show ?thesis by simp
  next
    case lt2: False
    show ?thesis
    proof (cases "\<bar>x\<bar> < 1")
      case True
      have "binade (x * 2) = binade x + 1"
      proof (rule binade_unique)
        from b(1) show "2 powi (binade x + 1) \<le> \<bar>x * 2\<bar>" by (simp add: power_int_add)
        from b(2) show "\<bar>x * 2\<bar> < 2 powi (binade x + 1 + 1)" by (simp add: power_int_add)
      qed
      with x0 lt2 True show ?thesis by simp
    next
      case False
      have "binade x = 0" using False lt2 by (intro binade_unique) simp_all
      with x0 lt2 False show ?thesis by simp
    qed
  qed
qed

lemma fl_round_eq:
  assumes "2 powi e \<le> \<bar>x\<bar>" "\<bar>x\<bar> < 2 powi (e + 1)"
  shows "fl_round p x = sgn x * of_int (rhe (\<bar>x\<bar> / 2 powi (e - int p + 1))) * 2 powi (e - int p + 1)"
proof -
  have "0 < \<bar>x\<bar>" using assms(1) by (smt (verit) zero_less_power_int)
  then have "x \<noteq> 0" by auto
  then show ?thesis by (simp add: fl_round_def binade_unique[OF assms] Let_def)
qed

lemma rhe_of_int [simp]: "rhe (of_int k) = k"
  by (simp add: rhe_def)

lemma rhe_bounds: "\<lfloor>x\<rfloor> \<le> rhe x" "rhe x \<le> \<lfloor>x\<rfloor> + 1"
  by (simp_all add: rhe_def Let_def)

lemma rhe_mono:
  assumes "x \<le> y"
  shows "rhe x \<le> rhe y"
proof (cases "\<lfloor>x\<rfloor> = \<lfloor>y\<rfloor>")
  case False
  with assms have "\<lfloor>x\<rfloor> < \<lfloor>y\<rfloor>" by (simp add: floor_mono order.strict_iff_order)
  with rhe_bounds(2)[of x] rhe_bounds(1)[of y] show ?thesis by linarith
next
  case True
  with assms have "x - of_int \<lfloor>x\<rfloor> \<le> y - of_int \<lfloor>y\<rfloor>" by simp
  with True show ?thesis
    by (auto simp: rhe_def Let_def)
qed

lemma rhe_near_below:
  assumes "0 \<le> t" "t < 1 / 2"
  shows "rhe (of_int k - t) = k"
proof (cases "t = 0")
  case True
  then show ?thesis by simp
next
  case False
  with assms have f: "\<lfloor>of_int k - t\<rfloor> = k - 1" by (intro floor_unique) simp_all
  from assms have "1 / 2 < of_int k - t - of_int (k - 1)" by simp
  with f show ?thesis by (simp add: rhe_def Let_def)
qed

lemma binade_mono:
  assumes "0 < x" "x \<le> y"
  shows "binade x \<le> binade y"
proof -
  from assms have "log 2 \<bar>x\<bar> \<le> log 2 \<bar>y\<bar>" by simp
  then have "\<lfloor>log 2 \<bar>x\<bar>\<rfloor> \<le> \<lfloor>log 2 \<bar>y\<bar>\<rfloor>" by (rule floor_mono)
  with assms show ?thesis by (simp add: binade_def)
qed

text \<open>Rounding a positive number keeps it inside the closure of its binade.\<close>

lemma fl_round_pos:
  assumes p: "0 < p" and x: "0 < x"
  shows "fl_round p x = of_int (rhe (x / 2 powi (binade x - int p + 1))) * 2 powi (binade x - int p + 1)"
    and "2 powi binade x \<le> fl_round p x"
    and "fl_round p x \<le> 2 powi (binade x + 1)"
proof -
  let ?e = "binade x"
  let ?u = "(2 :: real) powi (?e - int p + 1)"
  from x have x0: "x \<noteq> 0" and ax: "\<bar>x\<bar> = x" and sx: "sgn x = 1" by simp_all
  have u: "0 < ?u" by simp
  show eq: "fl_round p x = of_int (rhe (x / ?u)) * ?u"
    using x0 ax sx by (simp add: fl_round_def Let_def)
  from binade_bounds[OF x0] ax have b: "2 powi ?e \<le> x" "x < 2 powi (?e + 1)" by simp_all
  have lo: "(2 :: real) powi ?e = of_int (2 ^ (p - 1)) * ?u"
  proof -
    have "(2 :: real) powi ?e = 2 powi (int (p - 1) + (?e - int p + 1))"
      using p by (simp add: of_nat_diff)
    also have "\<dots> = 2 powi int (p - 1) * ?u" by (rule power_int_add) simp
    finally show ?thesis by simp
  qed
  have hi: "(2 :: real) powi (?e + 1) = of_int (2 ^ p) * ?u"
  proof -
    have "(2 :: real) powi (?e + 1) = 2 powi (int p + (?e - int p + 1))" by simp
    also have "\<dots> = 2 powi int p * ?u" by (rule power_int_add) simp
    finally show ?thesis by simp
  qed
  from b(1) lo u have "of_int (2 ^ (p - 1)) \<le> x / ?u" by (simp add: pos_le_divide_eq)
  then have "rhe (of_int (2 ^ (p - 1))) \<le> rhe (x / ?u)" by (rule rhe_mono)
  then have "(of_int (2 ^ (p - 1)) :: real) \<le> of_int (rhe (x / ?u))" by (simp only: rhe_of_int of_int_le_iff)
  then have "of_int (2 ^ (p - 1)) * ?u \<le> of_int (rhe (x / ?u)) * ?u"
    using u by (simp only: mult_le_cancel_right_pos)
  then show "2 powi ?e \<le> fl_round p x" by (simp only: eq lo)
  from b(2) hi u have "x / ?u \<le> of_int (2 ^ p)" by (simp add: pos_divide_le_eq)
  then have "rhe (x / ?u) \<le> rhe (of_int (2 ^ p))" by (rule rhe_mono)
  then have "(of_int (rhe (x / ?u)) :: real) \<le> of_int (2 ^ p)" by (simp only: rhe_of_int of_int_le_iff)
  then have "of_int (rhe (x / ?u)) * ?u \<le> of_int (2 ^ p) * ?u"
    using u by (simp only: mult_le_cancel_right_pos)
  then show "fl_round p x \<le> 2 powi (?e + 1)" by (simp only: eq hi)
qed

lemma fl_round_neg: "fl_round p (- x) = - fl_round p x"
  by (simp add: fl_round_def binade_def Let_def sgn_minus)

lemma fl_round_pos_mono:
  assumes p: "0 < p" and xy: "0 < x" "x \<le> y"
  shows "fl_round p x \<le> fl_round p y"
proof (cases "binade x = binade y")
  case True
  let ?u = "(2 :: real) powi (binade y - int p + 1)"
  from xy have y: "0 < y" by simp
  have u: "0 < ?u" by simp
  from xy(2) u have "x / ?u \<le> y / ?u" by (simp add: divide_right_mono)
  then have "rhe (x / ?u) \<le> rhe (y / ?u)" by (rule rhe_mono)
  then have "of_int (rhe (x / ?u)) * ?u \<le> of_int (rhe (y / ?u)) * ?u"
    using u by (simp only: mult_le_cancel_right_pos of_int_le_iff)
  then show ?thesis
    using fl_round_pos(1)[OF p xy(1)] fl_round_pos(1)[OF p y] True by simp
next
  case False
  from xy have y: "0 < y" by simp
  from False binade_mono[OF xy] have "binade x + 1 \<le> binade y" by simp
  then have "(2 :: real) powi (binade x + 1) \<le> 2 powi binade y"
    by (intro power_int_increasing) simp_all
  with fl_round_pos(3)[OF p xy(1)] fl_round_pos(2)[OF p y] show ?thesis by linarith
qed

lemma fl_round_nonneg:
  assumes "0 < p" "0 \<le> x"
  shows "0 \<le> fl_round p x"
proof (cases "x = 0")
  case True
  then show ?thesis by (simp add: fl_round_def)
next
  case False
  with assms have x: "0 < x" by simp
  have "(0 :: real) \<le> 2 powi binade x" by simp
  with fl_round_pos(2)[OF assms(1) x] show ?thesis by linarith
qed

lemma fl_round_mono:
  assumes p: "0 < p" and xy: "x \<le> y"
  shows "fl_round p x \<le> fl_round p y"
proof -
  consider "0 < x" | "x \<le> 0" "0 \<le> y" | "y < 0" by linarith
  then show ?thesis
  proof cases
    case 1
    then show ?thesis using p xy by (intro fl_round_pos_mono)
  next
    case 2
    from fl_round_nonneg[OF p, of "- x"] 2(1) have "fl_round p x \<le> 0"
      by (simp add: fl_round_neg)
    with fl_round_nonneg[OF p 2(2)] show ?thesis by linarith
  next
    case 3
    with xy have "0 < - y" "- y \<le> - x" by simp_all
    with p have "fl_round p (- y) \<le> fl_round p (- x)" by (intro fl_round_pos_mono)
    then show ?thesis by (simp add: fl_round_neg)
  qed
qed

lemma f32_mono: "x \<le> y \<Longrightarrow> f32 x \<le> f32 y"
  unfolding f32_def by (rule fl_round_mono) simp

lemma f64_mono: "x \<le> y \<Longrightarrow> f64 x \<le> f64 y"
  unfolding f64_def by (rule fl_round_mono) simp

lemma f32_nonneg: "0 \<le> x \<Longrightarrow> 0 \<le> f32 x"
  unfolding f32_def by (rule fl_round_nonneg) simp

lemma f64_nonneg: "0 \<le> x \<Longrightarrow> 0 \<le> f64 x"
  unfolding f64_def by (rule fl_round_nonneg) simp

lemma f32_eq:
  assumes "2 powi e \<le> \<bar>x\<bar>" "\<bar>x\<bar> < 2 powi (e + 1)"
  shows "f32 x = sgn x * of_int (rhe (\<bar>x\<bar> / 2 powi (e - 23))) * 2 powi (e - 23)"
  using fl_round_eq[OF assms, of 24] by (simp add: f32_def)

text \<open>A float32 number in \<open>[1, 2)\<close> absorbs a much smaller term.\<close>

lemma f32_absorb:
  assumes k: "2 ^ 23 \<le> k" "k < 2 ^ 24"
    and d: "0 \<le> d" "d \<le> 1 / 2 ^ 33"
  shows "f32 (d - of_int k / 2 ^ 23) = - (of_int k / 2 ^ 23)"
proof -
  let ?c = "(of_int k :: real) / 2 ^ 23"
  from k have c: "1 \<le> ?c" "?c < 2" by simp_all
  with d have neg: "d - ?c < 0" by simp
  then have ab: "\<bar>d - ?c\<bar> = ?c - d" and sg: "sgn (d - ?c) = - 1" by simp_all
  show ?thesis
  proof (cases "1 \<le> ?c - d")
    case True
    have f: "f32 (d - ?c) = sgn (d - ?c) * of_int (rhe (\<bar>d - ?c\<bar> / 2 powi (0 - 23))) * 2 powi (0 - 23)"
      using True c d by (intro f32_eq) (simp_all add: ab)
    have x: "\<bar>d - ?c\<bar> / 2 powi (0 - 23) = of_int k - d * 2 ^ 23"
      unfolding ab by (simp add: power_int_minus field_simps)
    have r: "rhe (of_int k - d * 2 ^ 23) = k"
      using d by (intro rhe_near_below) simp_all
    have "f32 (d - ?c) = - 1 * of_int k * 2 powi (0 - 23)"
      by (simp only: f x r sg)
    then show ?thesis by (simp add: power_int_minus)
  next
    case False
    have "k < 2 ^ 23 + 1"
    proof (rule ccontr)
      assume "\<not> k < 2 ^ 23 + 1"
      then have "2 ^ 23 + 1 \<le> k" by simp
      then have "(of_int (2 ^ 23 + 1) :: real) \<le> of_int k" by (simp only: of_int_le_iff)
      then have "1 + 1 / 2 ^ 23 \<le> ?c" by (simp add: field_simps)
      with d False show False by simp
    qed
    with k(1) have k23: "k = 2 ^ 23" by simp
    then have c1: "?c = 1" by simp
    from False c1 have dpos: "0 < d" by simp
    have f: "f32 (d - ?c) = sgn (d - ?c) * of_int (rhe (\<bar>d - ?c\<bar> / 2 powi (- 1 - 23))) * 2 powi (- 1 - 23)"
      using False c1 d by (intro f32_eq) (simp_all add: ab power_int_minus)
    from ab c1 have ab1: "\<bar>d - 1\<bar> = 1 - d" by simp
    have x: "\<bar>d - ?c\<bar> / 2 powi (- 1 - 23) = of_int (2 ^ 24) - d * 2 ^ 24"
      unfolding c1 ab1 by (simp add: power_int_minus field_simps)
    have r: "rhe (of_int (2 ^ 24) - d * 2 ^ 24) = 2 ^ 24"
      using d by (intro rhe_near_below) simp_all
    have "f32 (d - ?c) = - 1 * of_int (2 ^ 24) * 2 powi (- 1 - 23)"
      by (simp only: f x r sg)
    then have "f32 (d - ?c) = - 1" by (simp add: power_int_minus)
    then show ?thesis by (simp only: c1)
  qed
qed

section \<open>Properties of AverageMeter\<close>

lemma update_Inr_iff:
  "update m v n = Inr m' \<longleftrightarrow>
     count m + n \<noteq> 0 \<and>
     m' = \<lparr>val = v, avg = (sum_acc m + v * n) / (count m + n),
           sum_acc = sum_acc m + v * n, count = count m + n\<rparr>"
  by (cases m) (auto simp: update_def Let_def)

lemma update_Inl_iff: "update m v n = Inl e \<longleftrightarrow> count m + n = 0 \<and> e = ZeroDivisionError"
  by (auto simp: update_def Let_def)

lemma reset_eq: "reset m = \<lparr>val = 0, avg = 0, sum_acc = 0, count = 0\<rparr>"
  by (cases m) (simp add: reset_def)

lemma weighted_sum_simps [simp]:
  "weighted_sum [] = 0" "weighted_sum ((v, n) # ps) = v * n + weighted_sum ps"
  by (simp_all add: weighted_sum_def)

lemma total_weight_simps [simp]:
  "total_weight [] = 0" "total_weight ((v, n) # ps) = n + total_weight ps"
  by (simp_all add: total_weight_def)

lemma updates_Inr:
  "updates m ps = Inr m' \<Longrightarrow>
     sum_acc m' = sum_acc m + weighted_sum ps \<and>
     count m' = count m + total_weight ps \<and>
     (ps = [] \<longrightarrow> m' = m) \<and>
     (ps \<noteq> [] \<longrightarrow> count m' \<noteq> 0 \<and> avg m' = sum_acc m' / count m' \<and> val m' = fst (last ps))"
proof (induction ps arbitrary: m)
  case Nil
  then show ?case by simp
next
  case (Cons p ps)
  obtain v n where p: "p = (v, n)" by (cases p)
  from Cons.prems p obtain m1 where u: "update m v n = Inr m1" and r: "updates m1 ps = Inr m'"
    by (auto split: sum.splits)
  from u have m1: "count m + n \<noteq> 0" "sum_acc m1 = sum_acc m + v * n" "count m1 = count m + n"
    "avg m1 = sum_acc m1 / count m1" "val m1 = v"
    by (auto simp: update_Inr_iff)
  from Cons.IH[OF r] m1 p show ?case
    by (cases "ps = []") (auto simp: algebra_simps)
qed

lemma updates_positive:
  "0 \<le> count m \<Longrightarrow> \<forall>p\<in>set ps. 0 < snd p \<Longrightarrow>
     \<exists>m'. updates m ps = Inr m' \<and> 0 \<le> count m' \<and> (ps \<noteq> [] \<longrightarrow> 0 < count m')"
proof (induction ps arbitrary: m)
  case Nil
  then show ?case by simp
next
  case (Cons p ps)
  obtain v n where p: "p = (v, n)" by (cases p)
  with Cons.prems have n: "0 < n" by simp
  with Cons.prems obtain m1 where u: "update m v n = Inr m1" and c: "count m1 = count m + n"
    by (auto simp: update_Inr_iff)
  from c n Cons.prems have "0 \<le> count m1" "0 < count m1" by simp_all
  with Cons.IH[of m1] Cons.prems obtain m' where "updates m1 ps = Inr m'" "0 \<le> count m'"
    "ps \<noteq> [] \<longrightarrow> 0 < count m'" by auto
  with u p \<open>0 < count m1\<close> show ?case
    by (cases "ps = []") auto
qed

text \<open>
  Claim C1. After a sequence of \<^verbatim>\<open>update(value, weight)\<close> calls on a new or reset tracker
  has run, \<open>sum\<close> is the sum of the products \<open>value * weight\<close>, \<open>count\<close> is the sum of the
  weights and, when at least one call was made, \<open>avg\<close> is the weighted mean of the pairs
  (its denominator is not zero) and \<open>val\<close> is the last value. Calls whose weights are all
  positive always run to the end.
\<close>

theorem AverageMeter_weighted_mean:
  "(\<forall>m. updates (reset m0) ps = Inr m \<longrightarrow>
      sum_acc m = weighted_sum ps \<and> count m = total_weight ps \<and>
      (ps \<noteq> [] \<longrightarrow> total_weight ps \<noteq> 0 \<and> avg m = weighted_sum ps / total_weight ps \<and>
                  val m = fst (last ps))) \<and>
   ((\<forall>p\<in>set ps. 0 < snd p) \<longrightarrow> (\<exists>m. updates (reset m0) ps = Inr m))"
proof (intro conjI allI impI)
  fix m assume r: "updates (reset m0) ps = Inr m"
  from updates_Inr[OF r] show "sum_acc m = weighted_sum ps" "count m = total_weight ps"
    by (simp_all add: reset_eq)
  assume "ps \<noteq> []"
  with updates_Inr[OF r] show "total_weight ps \<noteq> 0" "avg m = weighted_sum ps / total_weight ps"
    "val m = fst (last ps)"
    by (simp_all add: reset_eq)
next
  assume "\<forall>p\<in>set ps. 0 < snd p"
  with updates_positive[of "reset m0" ps] show "\<exists>m. updates (reset m0) ps = Inr m"
    by (auto simp: reset_eq)
qed

text \<open>The calls \<^verbatim>\<open>update(2, 1); update(4, 3)\<close> on a new tracker.\<close>

theorem AverageMeter_weighted_mean_witness:
  "updates AverageMeter_init [(2, 1), (4, 3)] =
     Inr \<lparr>val = 4, avg = 7 / 2, sum_acc = 14, count = 4\<rparr> \<and>
   weighted_sum [(2, 1), (4, 3)] = 14 \<and> total_weight [(2, 1), (4, 3)] = 4 \<and>
   weighted_sum [(2, 1), (4, 3)] / total_weight [(2, 1), (4, 3)] = 7 / 2 \<and>
   fst (last [(2, 1), (4, 3 :: real)]) = (4 :: real)"
  using AverageMeter_weighted_mean[of "\<lparr>val = 0, avg = 0, sum_acc = 0, count = 0\<rparr>" "[(2, 1), (4, 3)]"]
  by (simp add: AverageMeter_init_def reset_eq update_def Let_def)

text \<open>
  Claim C7 as stated fails: \<^verbatim>\<open>update(5, 0)\<close> on a new tracker divides \<open>0\<close> by \<open>0\<close> and
  raises.
\<close>

theorem update_zero_weight_raises:
  "update AverageMeter_init 5 0 = Inl ZeroDivisionError"
  by (simp add: AverageMeter_init_def reset_def update_def)

text \<open>
  Claim C7, amended. A call \<^verbatim>\<open>update(v, n)\<close> raises exactly when \<open>n\<close> brings \<open>count\<close> to zero.
  When every weight of a sequence of \<^verbatim>\<open>update\<close> calls on a new or reset tracker is strictly
  positive, no call raises, and \<open>count\<close> is strictly positive after each call, that is at
  each division \<^verbatim>\<open>self.sum / self.count\<close>.
\<close>

theorem update_positive_weights_no_error:
  "(update m v n = Inl ZeroDivisionError \<longleftrightarrow> count m + n = 0) \<and>
   ((\<forall>p\<in>set ps. 0 < snd p) \<longrightarrow>
      (\<forall>k\<le>length ps. \<exists>m'. updates (reset m0) (take k ps) = Inr m' \<and> (0 < k \<longrightarrow> 0 < count m')))"
proof (intro conjI allI impI)
  show "update m v n = Inl ZeroDivisionError \<longleftrightarrow> count m + n = 0"
    by (simp add: update_Inl_iff)
next
  fix k assume pos: "\<forall>p\<in>set ps. 0 < snd p" and "k \<le> length ps"
  from pos have "\<forall>p\<in>set (take k ps). 0 < snd p"
    by (auto dest: in_set_takeD)
  with updates_positive[of "reset m0" "take k ps"]
  obtain m' where "updates (reset m0) (take k ps) = Inr m'" "take k ps \<noteq> [] \<longrightarrow> 0 < count m'"
    by (auto simp: reset_eq)
  moreover have "0 < k \<Longrightarrow> take k ps \<noteq> []" using \<open>k \<le> length ps\<close> by (cases ps) auto
  ultimately show "\<exists>m'. updates (reset m0) (take k ps) = Inr m' \<and> (0 < k \<longrightarrow> 0 < count m')"
    by auto
qed

theorem update_positive_weights_no_error_witness:
  "(\<exists>m. updates AverageMeter_init (take 2 [(5, 1), (3, 2)]) = Inr m \<and> 0 < count m) \<and>
   0 < snd (5 :: real, 1 :: real) \<and> 0 < snd (3 :: real, 2 :: real) \<and>
   update \<lparr>val = 1, avg = 1, sum_acc = 2, count = 2\<rparr> 5 (- 2) = Inl ZeroDivisionError"
proof -
  have h: "\<forall>p\<in>set [(5 :: real, 1 :: real), (3, 2)]. 0 < snd p" by simp
  note t = update_positive_weights_no_error[of _ _ _ "[(5 :: real, 1 :: real), (3, 2)]"
      "\<lparr>val = 0, avg = 0, sum_acc = 0, count = 0\<rparr>"]
  from t[of "\<lparr>val = 1, avg = 1, sum_acc = 2, count = 2\<rparr>" 5 "- 2", THEN conjunct1]
  have z: "update \<lparr>val = 1, avg = 1, sum_acc = 2, count = 2\<rparr> 5 (- 2) = Inl ZeroDivisionError"
    by simp
  from t[of AverageMeter_init 5 0, THEN conjunct2, THEN mp, OF h, rule_format, of 2]
  have "\<exists>m. updates AverageMeter_init (take 2 [(5, 1), (3, 2)]) = Inr m \<and> 0 < count m"
    by (simp add: AverageMeter_init_def)
  with z show ?thesis by simp
qed

section \<open>Properties of accuracy\<close>

lemma py_max_Inr: "ks \<noteq> [] \<Longrightarrow> py_max ks = Inr (Max (set ks))"
proof (cases ks)
  case Nil
  assume "ks \<noteq> []"
  with Nil show ?thesis by simp
next
  case (Cons k ks')
  have "fold max ks' k = Max (set (k # ks'))" by (simp only: Max.set_eq_fold)
  with Cons show ?thesis by (simp add: py_max_def)
qed

lemma accuracy_loop_Inr:
  "batch_size \<noteq> 0 \<Longrightarrow>
     accuracy_loop correct batch_size ks =
       Inr (map (\<lambda>k. f32 (correct_k correct k * f32 (f64 (100 / real batch_size)))) ks)"
  by (induction ks) simp_all

lemma accuracy_loop_empty_batch:
  "ks \<noteq> [] \<Longrightarrow> accuracy_loop correct 0 ks = Inl ZeroDivisionError"
  by (cases ks) simp_all

lemma sum_of_bool_nonneg: "0 \<le> (\<Sum>b\<leftarrow>bs. (of_bool b :: real))"
  by (rule sum_list_nonneg) auto

lemma correct_k_mono:
  assumes "0 \<le> k1" "k1 \<le> k2"
  shows "correct_k c k1 \<le> correct_k c k2"
proof -
  define a where "a = nat k1"
  define d where "d = nat k2 - nat k1"
  from assms have k: "nat k2 = a + d" by (simp add: a_def d_def)
  have "concat (take (a + d) c) = concat (take a c) @ concat (take d (drop a c))"
    by (simp only: take_add concat_append)
  then have "(\<Sum>b\<leftarrow>concat (take (a + d) c). (of_bool b :: real))
      = (\<Sum>b\<leftarrow>concat (take a c). of_bool b) + (\<Sum>b\<leftarrow>concat (take d (drop a c)). of_bool b)"
    by simp
  moreover have "0 \<le> (\<Sum>b\<leftarrow>concat (take d (drop a c)). (of_bool b :: real))"
    by (rule sum_of_bool_nonneg)
  ultimately have "(\<Sum>b\<leftarrow>concat (take a c). (of_bool b :: real))
      \<le> (\<Sum>b\<leftarrow>concat (take (a + d) c). of_bool b)"
    by linarith
  with assms k show ?thesis
    by (simp add: correct_k_def py_slice_to_def a_def)
qed

lemma permutation_set:
  assumes "distinct r" "length r = M" "\<forall>i\<in>set r. i < M"
  shows "set r = {..<M}"
proof (rule card_subset_eq)
  show "finite {..<M}" by simp
  show "set r \<subseteq> {..<M}" using assms(3) by auto
  show "card (set r) = card {..<M}" using assms(1,2) by (simp add: distinct_card)
qed

lemma permutation_hit:
  assumes "distinct r" "length r = M" "\<forall>i\<in>set r. i < M" "0 \<le> t" "t < int M"
  shows "(\<Sum>j\<leftarrow>[0..<M]. (of_bool (int (r ! j) = t) :: real)) = 1"
proof -
  have "map (\<lambda>j. (of_bool (int (r ! j) = t) :: real)) [0..<length r]
        = map (\<lambda>x. of_bool (int x = t)) (map (\<lambda>j. r ! j) [0..<length r])"
    by (simp only: map_map comp_def)
  also have "\<dots> = map (\<lambda>x. of_bool (int x = t)) r"
    by (simp only: map_nth)
  finally have "(\<Sum>j\<leftarrow>[0..<length r]. (of_bool (int (r ! j) = t) :: real))
        = (\<Sum>x\<leftarrow>r. of_bool (int x = t))"
    by (rule arg_cong)
  also have "\<dots> = (\<Sum>x\<in>set r. of_bool (int x = t))"
    using assms(1) by (rule sum_list_distinct_conv_sum_set)
  also have "\<dots> = (\<Sum>x\<in>{..<M}. of_bool (int x = t))"
    by (simp only: permutation_set[OF assms(1-3)])
  also have "\<dots> = (\<Sum>x\<in>{..<M}. if x = nat t then 1 else 0)"
  proof (rule sum.cong)
    fix x show "(of_bool (int x = t) :: real) = (if x = nat t then 1 else 0)"
      using assms(4) by (cases "x = nat t") auto
  qed (rule refl)
  also have "\<dots> = (if nat t \<in> {..<M} then 1 else 0)"
    by (rule sum.delta) simp
  also have "\<dots> = 1"
    using assms(4,5) by simp
  finally show ?thesis using assms(2) by simp
qed

lemma hits_total:
  assumes "length pred = length trow"
    and "\<forall>r\<in>set pred. distinct r \<and> length r = M \<and> (\<forall>i\<in>set r. i < M)"
    and "\<forall>t\<in>set trow. 0 \<le> t \<and> t < int M"
  shows "(\<Sum>j\<leftarrow>[0..<M]. \<Sum>(p, t)\<leftarrow>zip (map (\<lambda>row. row ! j) pred) trow. (of_bool (int p = t) :: real))
         = real (length pred)"
  using assms
proof (induction pred trow rule: list_induct2)
  case Nil
  then show ?case by simp
next
  case (Cons r pred t trow)
  have "(\<Sum>j\<leftarrow>[0..<M]. \<Sum>(p, t)\<leftarrow>zip (map (\<lambda>row. row ! j) (r # pred)) (t # trow). (of_bool (int p = t) :: real))
        = (\<Sum>j\<leftarrow>[0..<M]. of_bool (int (r ! j) = t) +
             (\<Sum>(p, t)\<leftarrow>zip (map (\<lambda>row. row ! j) pred) trow. (of_bool (int p = t) :: real)))"
    by simp
  also have "\<dots> = (\<Sum>j\<leftarrow>[0..<M]. of_bool (int (r ! j) = t)) +
        (\<Sum>j\<leftarrow>[0..<M]. \<Sum>(p, t)\<leftarrow>zip (map (\<lambda>row. row ! j) pred) trow. (of_bool (int p = t) :: real))"
    by (simp only: sum_list_addf)
  also have "\<dots> = 1 + real (length pred)"
    using Cons.IH Cons.prems permutation_hit[of r M t] by simp
  finally show ?case by simp
qed

lemma sum_list_concat_map:
  "(\<Sum>b\<leftarrow>concat xss. (f b :: real)) = (\<Sum>xs\<leftarrow>xss. \<Sum>b\<leftarrow>xs. f b)"
  by (induction xss) simp_all

lemma correct_k_full:
  assumes "length pred = length trow"
    and "\<forall>r\<in>set pred. distinct r \<and> length r = M \<and> (\<forall>i\<in>set r. i < M)"
    and "\<forall>t\<in>set trow. 0 \<le> t \<and> t < int M"
  shows "correct_k (map (\<lambda>prow. map2 (\<lambda>p t. int p = t) prow trow) (tensor_t M pred)) (int M)
         = real (length pred)"
proof -
  have "correct_k (map (\<lambda>prow. map2 (\<lambda>p t. int p = t) prow trow) (tensor_t M pred)) (int M)
      = (\<Sum>j\<leftarrow>[0..<M]. \<Sum>(p, t)\<leftarrow>zip (map (\<lambda>row. row ! j) pred) trow. (of_bool (int p = t) :: real))"
    by (simp add: correct_k_def py_slice_to_def tensor_t_def sum_list_concat_map comp_def
        case_prod_unfold)
  with hits_total[OF assms] show ?thesis by simp
qed

lemma accuracy_Inr:
  assumes shape: "length output = length target" "\<forall>row\<in>set output. length row = classes"
    and batch: "target \<noteq> []"
    and ranks: "topk \<noteq> []" "\<forall>k\<in>set topk. 1 \<le> k \<and> k \<le> int classes"
  shows "accuracy sel output target topk =
     Inr (map (\<lambda>k. f32 (correct_k (map (\<lambda>prow. map2 (\<lambda>p t. int p = t) prow target)
                                 (tensor_t (nat (Max (set topk))) (map (sel (nat (Max (set topk)))) output))) k
                        * f32 (f64 (100 / real (length target))))) topk)"
proof -
  let ?M = "Max (set topk)"
  have "?M \<in> set topk" using ranks(1) by (intro Max_in) auto
  with ranks(2) have M: "1 \<le> ?M" "?M \<le> int classes" by auto
  have tk: "torch_topk sel ?M output = Inr (map (sel (nat ?M)) output)"
    using M shape(2) by (auto simp: torch_topk_def)
  have ex: "expand_as_row target (length output) = Inr target"
    using shape(1) by (simp add: expand_as_row_def)
  have bs: "length target \<noteq> 0" using batch by simp
  show ?thesis
    by (simp add: accuracy_def py_max_Inr[OF ranks(1)] tk ex Let_def accuracy_loop_Inr[OF bs])
qed

lemma topk_stable_sound: "topk_sound topk_stable"
  unfolding topk_sound_def topk_stable_def
proof (intro allI impI conjI ballI)
  fix k :: nat and row :: "real list" and i
  assume k: "1 \<le> k \<and> k \<le> length row"
  then show "length (take k (sort_key (\<lambda>i. - row ! i) [0..<length row])) = k" by simp
  show "distinct (take k (sort_key (\<lambda>i. - row ! i) [0..<length row]))" by simp
  assume "i \<in> set (take k (sort_key (\<lambda>i. - row ! i) [0..<length row]))"
  then have "i \<in> set (sort_key (\<lambda>i. - row ! i) [0..<length row])" by (rule in_set_takeD)
  then show "i < length row" by simp
qed

lemma insort_key_cong_order:
  "\<forall>y\<in>set s. (f x \<le> f y) = (g x \<le> g y) \<Longrightarrow> insort_key f x s = insort_key g x s"
  by (induction s) simp_all

lemma sort_key_cong_order:
  "\<forall>a\<in>set l. \<forall>b\<in>set l. (f a \<le> f b) = (g a \<le> g b) \<Longrightarrow> sort_key f l = sort_key g l"
proof (induction l)
  case Nil
  then show ?case by simp
next
  case (Cons x l)
  then have IH: "sort_key f l = sort_key g l" by simp
  have "insort_key f x (sort_key g l) = insort_key g x (sort_key g l)"
    using Cons.prems by (intro insort_key_cong_order) simp
  with IH show ?case by simp
qed

lemma topk_stable_order_determined: "topk_order_determined topk_stable"
  unfolding topk_order_determined_def topk_stable_def
proof (intro allI impI)
  fix k and xs ys :: "real list"
  assume h: "length xs = length ys \<and>
    (\<forall>i<length xs. \<forall>j<length xs. (xs ! i \<le> xs ! j) = (ys ! i \<le> ys ! j))"
  then have "sort_key (\<lambda>i. - xs ! i) [0..<length xs] = sort_key (\<lambda>i. - ys ! i) [0..<length xs]"
    by (intro sort_key_cong_order) auto
  with h show "take k (sort_key (\<lambda>i. - xs ! i) [0..<length xs])
      = take k (sort_key (\<lambda>i. - ys ! i) [0..<length ys])"
    by simp
qed

text \<open>
  Claim C6, amended. Let the logits be a \<open>[batch, classes]\<close> matrix with a non-empty batch,
  one label per row, and let every requested rank lie between 1 and \<open>classes\<close>. Then
  \<^verbatim>\<open>accuracy\<close> returns one result per rank, and the result for a rank is at most the result
  for any larger requested rank. When the labels are class indices, the result for the rank
  \<open>classes\<close> is the float32 product of the batch size and the float32 quotient
  \<open>100 / batch\<close>: 100 up to rounding, not always 100. This holds whatever order the ranking
  primitive gives to equal scores.
\<close>

theorem accuracy_monotone_in_k:
  assumes sel: "topk_sound sel"
    and shape: "length output = length target" "\<forall>row\<in>set output. length row = classes"
    and batch: "target \<noteq> []"
    and ranks: "\<forall>k\<in>set topk. 1 \<le> k \<and> k \<le> int classes"
    and ij: "i < length topk" "j < length topk" "topk ! i \<le> topk ! j"
  shows "\<exists>res. accuracy sel output target topk = Inr res \<and> length res = length topk \<and>
           res ! i \<le> res ! j \<and>
           ((\<forall>t\<in>set target. 0 \<le> t \<and> t < int classes) \<and> topk ! j = int classes \<longrightarrow>
              res ! j = f32 (real (length target) * f32 (f64 (100 / real (length target)))))"
proof -
  let ?M = "Max (set topk)"
  let ?pred = "map (sel (nat ?M)) output"
  let ?correct = "map (\<lambda>prow. map2 (\<lambda>p t. int p = t) prow target) (tensor_t (nat ?M) ?pred)"
  let ?c = "f32 (f64 (100 / real (length target)))"
  let ?res = "map (\<lambda>k. f32 (correct_k ?correct k * ?c)) topk"
  have ne: "topk \<noteq> []" using ij(1) by auto
  have acc: "accuracy sel output target topk = Inr ?res"
    by (rule accuracy_Inr[OF shape batch ne ranks])
  have ki: "topk ! i \<in> set topk" and kj: "topk ! j \<in> set topk" using ij by simp_all
  have c0: "0 \<le> ?c" by (intro f32_nonneg f64_nonneg) simp
  have mono: "?res ! i \<le> ?res ! j"
  proof -
    from ki ranks have "0 \<le> topk ! i" by force
    then have "correct_k ?correct (topk ! i) \<le> correct_k ?correct (topk ! j)"
      using ij(3) by (rule correct_k_mono)
    then have "correct_k ?correct (topk ! i) * ?c \<le> correct_k ?correct (topk ! j) * ?c"
      using c0 by (rule mult_right_mono)
    then have "f32 (correct_k ?correct (topk ! i) * ?c) \<le> f32 (correct_k ?correct (topk ! j) * ?c)"
      by (rule f32_mono)
    with ij show ?thesis by simp
  qed
  have full: "?res ! j = f32 (real (length target) * ?c)"
    if labels: "\<forall>t\<in>set target. 0 \<le> t \<and> t < int classes" and top: "topk ! j = int classes"
  proof -
    have "?M \<in> set topk" using ne by (intro Max_in) auto
    with ranks have "?M \<le> int classes" by auto
    moreover have "topk ! j \<le> ?M" using kj by (intro Max_ge) auto
    ultimately have M: "nat ?M = classes" using top by simp
    have c1: "1 \<le> classes" using kj ranks top by force
    have rows: "\<forall>r\<in>set (map (sel classes) output).
        distinct r \<and> length r = classes \<and> (\<forall>i\<in>set r. i < classes)"
    proof
      fix r assume "r \<in> set (map (sel classes) output)"
      then obtain row where row: "row \<in> set output" and r: "r = sel classes row" by auto
      from row shape(2) have l: "length row = classes" by simp
      with c1 have "1 \<le> classes \<and> classes \<le> length row" by simp
      with sel have "length (sel classes row) = classes \<and> distinct (sel classes row) \<and>
          (\<forall>i\<in>set (sel classes row). i < length row)"
        unfolding topk_sound_def by blast
      with r l show "distinct r \<and> length r = classes \<and> (\<forall>i\<in>set r. i < classes)" by simp
    qed
    have len: "length (map (sel classes) output) = length target" using shape(1) by simp
    have "correct_k (map (\<lambda>prow. map2 (\<lambda>p t. int p = t) prow target)
            (tensor_t classes (map (sel classes) output))) (int classes)
          = real (length (map (sel classes) output))"
      using len rows labels by (rule correct_k_full)
    then have "correct_k ?correct (topk ! j) = real (length target)"
      using M top shape(1) by simp
    then show ?thesis using ij(2) by simp
  qed
  from acc mono full show ?thesis by auto
qed

text \<open>Three rows over three classes, ranks 1 and 3, with the stable selection.\<close>

lemma accuracy_example:
  "accuracy topk_stable [[1,5,3],[2,2,1],[0,1,2]] [1,0,0] [1,3] = Inr [8738133 / 131072, 100]"
  by code_simp

theorem accuracy_monotone_in_k_witness:
  "topk_sound topk_stable \<and>
   accuracy topk_stable [[1,5,3],[2,2,1],[0,1,2]] [1,0,0] [1,3] = Inr [8738133 / 131072, 100] \<and>
   f32 (real (length [1, 0, 0 :: int]) * f32 (f64 (100 / real (length [1, 0, 0 :: int])))) = 100 \<and>
   (\<exists>res. accuracy topk_stable [[1,5,3],[2,2,1],[0,1,2]] [1,0,0] [1,3] = Inr res \<and>
      length res = 2 \<and> res ! 0 \<le> res ! 1 \<and> res ! 1 = 100)"
proof -
  have v: "f32 (real (length [1, 0, 0 :: int]) * f32 (f64 (100 / real (length [1, 0, 0 :: int])))) = 100"
    by code_simp
  have "\<exists>res. accuracy topk_stable [[1,5,3],[2,2,1],[0,1,2]] [1,0,0] [1,3] = Inr res \<and>
      length res = length [1, 3 :: int] \<and> res ! 0 \<le> res ! 1 \<and>
      ((\<forall>t\<in>set [1, 0, 0 :: int]. 0 \<le> t \<and> t < int 3) \<and> [1, 3 :: int] ! 1 = int 3 \<longrightarrow>
         res ! 1 = f32 (real (length [1, 0, 0 :: int]) * f32 (f64 (100 / real (length [1, 0, 0 :: int])))))"
    by (rule accuracy_monotone_in_k[OF topk_stable_sound, where classes = 3]) simp_all
  then obtain res where r: "accuracy topk_stable [[1,5,3],[2,2,1],[0,1,2]] [1,0,0] [1,3] = Inr res"
      "length res = 2" "res ! 0 \<le> res ! 1"
      "res ! 1 = f32 (real (length [1, 0, 0 :: int]) * f32 (f64 (100 / real (length [1, 0, 0 :: int]))))"
    by auto
  from r(4) v have "res ! 1 = 100" by (simp only:)
  with r(1-3) topk_stable_sound accuracy_example v show ?thesis by blast
qed

text \<open>
  Claim C6 as stated fails: for a batch of 45 rows whose labels are all within the top
  \<open>classes\<close> scores, the result is not 100 but the next float32 number above it.
\<close>

theorem accuracy_full_rank_not_100:
  "accuracy topk_stable (replicate 45 [0]) (replicate 45 0) [1] = Inr [13107201 / 131072] \<and>
   (13107201 / 131072 :: real) \<noteq> 100"
proof -
  have "accuracy topk_stable (replicate 45 [0]) (replicate 45 0) [1] = Inr [13107201 / 131072]"
    by code_simp
  then show ?thesis by simp
qed

section \<open>log-softmax and the ranking\<close>

lemma log_softmax_length [simp]: "length (log_softmax x) = length x"
  by (simp add: log_softmax_def)

lemma sel_shift_row:
  assumes "topk_order_determined sel"
  shows "sel k (map (\<lambda>v. v - c) row) = sel k row"
proof -
  have "length (map (\<lambda>v. v - c) row) = length row \<and>
      (\<forall>i<length (map (\<lambda>v. v - c) row). \<forall>j<length (map (\<lambda>v. v - c) row).
         (map (\<lambda>v. v - c) row ! i \<le> map (\<lambda>v. v - c) row ! j) = (row ! i \<le> row ! j))"
    by simp
  with assms show ?thesis
    unfolding topk_order_determined_def by blast
qed

lemma torch_topk_log_softmax:
  assumes "topk_order_determined sel"
  shows "torch_topk sel k (log_softmax x) = torch_topk sel k x"
proof -
  have "(\<exists>row\<in>set (log_softmax x). int (length row) < k) = (\<exists>row\<in>set x. int (length row) < k)"
    by (simp add: log_softmax_def)
  moreover have "map (sel (nat k)) (log_softmax x) = map (sel (nat k)) x"
    by (simp add: log_softmax_def sel_shift_row[OF assms])
  ultimately show ?thesis
    by (simp only: torch_topk_def)
qed

lemma accuracy_log_softmax:
  assumes "topk_order_determined sel"
  shows "accuracy sel (log_softmax output) target topk = accuracy sel output target topk"
  by (simp only: accuracy_def torch_topk_log_softmax[OF assms] log_softmax_length)

lemma same_order_maps:
  assumes "topk_order_determined sel" "list_all2 same_order xs ys"
  shows "map (sel k) xs = map (sel k) ys \<and> map length xs = map length ys"
  using assms(2)
proof (induction rule: list_all2_induct)
  case Nil
  then show ?case by simp
next
  case (Cons x xs y ys)
  from Cons.hyps(1) assms(1) have "sel k x = sel k y"
    unfolding same_order_def topk_order_determined_def by blast
  moreover from Cons.hyps(1) have "length x = length y" by (simp add: same_order_def)
  ultimately show ?case using Cons.IH by simp
qed

lemma torch_topk_same_order:
  assumes "topk_order_determined sel" "list_all2 same_order xs ys"
  shows "torch_topk sel k xs = torch_topk sel k ys"
proof -
  note m = same_order_maps[OF assms]
  have "(\<exists>row\<in>set xs. int (length row) < k) = (\<exists>l\<in>set (map length xs). int l < k)" by auto
  also have "\<dots> = (\<exists>l\<in>set (map length ys). int l < k)" using m[of 0] by simp
  also have "\<dots> = (\<exists>row\<in>set ys. int (length row) < k)" by auto
  finally show ?thesis using m[of "nat k"] by (simp add: torch_topk_def)
qed

lemma accuracy_same_order:
  assumes "topk_order_determined sel" "list_all2 same_order output' output"
  shows "accuracy sel output' target topk = accuracy sel output target topk"
proof -
  from assms(2) have "length output' = length output" by (rule list_all2_lengthD)
  then show ?thesis
    by (simp only: accuracy_def torch_topk_same_order[OF assms])
qed

section \<open>Properties of the forward pass of train and of validate\<close>

lemma segment_outputs_Inr:
  "\<forall>i\<in>set is. i < size1 x \<Longrightarrow>
     segment_outputs model x is = Inr (map (\<lambda>i. model (Frames (map (\<lambda>clip. clip ! i) (items x)))) is)"
  by (induction "is") (simp_all add: select1_def)

lemma segment_outputs_Inl:
  "\<exists>i\<in>set is. \<not> i < size1 x \<Longrightarrow> segment_outputs model x is = Inl IndexError"
proof (induction "is")
  case Nil
  then show ?case by simp
next
  case (Cons i "is")
  show ?case
  proof (cases "i < size1 x")
    case False
    then show ?thesis by (simp add: select1_def)
  next
    case True
    with Cons.prems have "\<exists>i\<in>set is. \<not> i < size1 x" by auto
    with Cons.IH True show ?thesis by (simp add: select1_def)
  qed
qed

lemma torch_mean0_map:
  assumes n: "0 < n"
    and shape: "\<forall>i<n. length (f i) = B \<and> (\<forall>row\<in>set (f i). length row = C)"
  shows "torch_mean0 (map f [0..<n]) =
     map (\<lambda>b. map (\<lambda>c. (\<Sum>i<n. f i ! b ! c) / real n) [0..<C]) [0..<B]"
proof -
  from n have hd: "hd (map f [0..<n]) = f 0"
    by (simp add: hd_map upt_conv_Cons)
  from n shape have lB: "length (f 0) = B" by blast
  have lC: "length (f 0 ! b) = C" if "b < B" for b
    using n shape lB that by (metis nth_mem)
  have sums: "(\<Sum>t\<leftarrow>map f [0..<n]. t ! b ! c) = (\<Sum>i<n. f i ! b ! c)" for b c
    by (simp add: comp_def interv_sum_list_conv_sum_set_nat lessThan_atLeast0)
  show ?thesis
    unfolding torch_mean0_def hd lB
    by (rule map_cong[OF refl]) (simp add: lC sums[unfolded map_map])
qed

lemma log_softmax_map:
  "log_softmax (map (\<lambda>b. map (\<lambda>c. L b c) [0..<C]) [0..<B]) =
     map (\<lambda>b. map (\<lambda>c. L b c - ln (\<Sum>c'<C. exp (L b c'))) [0..<C]) [0..<B]"
  by (simp add: log_softmax_def comp_def interv_sum_list_conv_sum_set_nat lessThan_atLeast0)


lemma torch_stack_map:
  assumes "0 < n" "\<forall>i<n. length (f i) = B \<and> (\<forall>row\<in>set (f i). length row = C)"
  shows "torch_stack (map f [0..<n]) = Inr (map f [0..<n])"
proof -
  have "map length (f i) = replicate B C" if "i < n" for i
    using assms(2) that by (intro replicate_eqI) auto
  then have "\<forall>t\<in>set (map f [0..<n]). map length t = map length (hd (map f [0..<n]))"
    using assms(1) by (auto simp: hd_map upt_conv_Cons)
  with assms(1) show ?thesis by (simp add: torch_stack_def)
qed

lemma train_logits_Inr:
  assumes n: "0 < num_segments" "num_segments \<le> int (size1 x)"
    and shape: "\<forall>i<nat num_segments.
        length (model (Frames (map (\<lambda>clip. clip ! i) (items x)))) = B \<and>
        (\<forall>row\<in>set (model (Frames (map (\<lambda>clip. clip ! i) (items x)))). length row = C)"
  shows "train_logits model num_segments x =
     Inr (map (\<lambda>b. map (\<lambda>c. segment_mean model (nat num_segments) x b c) [0..<C]) [0..<B])"
proof -
  let ?f = "\<lambda>i. model (Frames (map (\<lambda>clip. clip ! i) (items x)))"
  from n have pos: "0 < nat num_segments" by simp
  from n have "\<forall>i\<in>set [0..<nat num_segments]. i < size1 x" by auto
  then have so: "segment_outputs model x (py_range num_segments) = Inr (map ?f [0..<nat num_segments])"
    unfolding py_range_def by (rule segment_outputs_Inr)
  have st: "torch_stack (map ?f [0..<nat num_segments]) = Inr (map ?f [0..<nat num_segments])"
    using pos shape by (rule torch_stack_map)
  have mn: "torch_mean0 (map ?f [0..<nat num_segments]) =
      map (\<lambda>b. map (\<lambda>c. (\<Sum>i<nat num_segments. ?f i ! b ! c) / real (nat num_segments)) [0..<C]) [0..<B]"
    using pos shape by (rule torch_mean0_map)
  show ?thesis
    by (simp add: train_logits_def so st mn segment_mean_def)
qed

text \<open>
  Claim C2. For a batch whose segment dimension has at least \<open>num_segments\<close> entries,
  \<open>num_segments\<close> positive, and a model that returns a \<open>[B, C]\<close> matrix on each of the slices
  \<^verbatim>\<open>input[:, i]\<close> for \<open>i\<close> below \<open>num_segments\<close>, the forward pass of \<^verbatim>\<open>train\<close> raises nothing, its
  output is the log-softmax along the classes of the mean over the segments of the
  per-segment outputs, and the criterion is applied to that output and the labels.
\<close>

theorem train_aggregates_segments:
  assumes n: "0 < num_segments" "num_segments \<le> int (size1 x)"
    and shape: "\<forall>i<nat num_segments.
        length (model (Frames (map (\<lambda>clip. clip ! i) (items x)))) = B \<and>
        (\<forall>row\<in>set (model (Frames (map (\<lambda>clip. clip ! i) (items x)))). length row = C)"
  shows "train_output model num_segments x = Inr (aggregate_spec model (nat num_segments) B C x) \<and>
         train_loss model criterion num_segments x target =
           Inr (criterion (aggregate_spec model (nat num_segments) B C x) target)"
proof -
  have "train_output model num_segments x =
      Inr (log_softmax (map (\<lambda>b. map (\<lambda>c. segment_mean model (nat num_segments) x b c) [0..<C]) [0..<B]))"
    by (simp add: train_output_def train_logits_Inr[OF n shape])
  then have "train_output model num_segments x = Inr (aggregate_spec model (nat num_segments) B C x)"
    by (simp only: log_softmax_map aggregate_spec_def)
  then show ?thesis by (simp add: train_loss_def)
qed

text \<open>One clip, two segments, five classes.\<close>

lemma demo_aggregate:
  "aggregate_spec demo_model 2 1 5 demo_input =
     [[2 - ln (4 + exp 2), - ln (4 + exp 2), - ln (4 + exp 2), - ln (4 + exp 2), - ln (4 + exp 2)]]"
  by (simp add: aggregate_spec_def segment_mean_def demo_model_def demo_input_def
      eval_nat_numeral upt_rec lessThan_Suc)

theorem train_aggregates_segments_witness:
  "0 < (2 :: int) \<and> 2 \<le> int (size1 demo_input) \<and>
   train_output demo_model 2 demo_input =
     Inr [[2 - ln (4 + exp 2), - ln (4 + exp 2), - ln (4 + exp 2), - ln (4 + exp 2), - ln (4 + exp 2)]] \<and>
   train_loss demo_model demo_criterion 2 demo_input [0] = Inr (ln (4 + exp 2) - 2)"
proof -
  have n: "0 < (2 :: int)" "2 \<le> int (size1 demo_input)" by (simp_all add: demo_input_def)
  have shape: "\<forall>i<nat 2.
      length (demo_model (Frames (map (\<lambda>clip. clip ! i) (items demo_input)))) = 1 \<and>
      (\<forall>row\<in>set (demo_model (Frames (map (\<lambda>clip. clip ! i) (items demo_input)))). length row = 5)"
    by (simp add: demo_model_def demo_input_def)
  from train_aggregates_segments[OF n shape, of demo_criterion "[0]"] n demo_aggregate
  show ?thesis by (simp add: demo_criterion_def)
qed

lemma torch_mean0_single: "torch_mean0 [out] = out"
proof -
  have "map (\<lambda>c. out ! b ! c) [0..<length (out ! b)] = out ! b" for b
    by (rule map_nth)
  then have "torch_mean0 [out] = map (\<lambda>b. out ! b) [0..<length out]"
    by (simp add: torch_mean0_def)
  then show ?thesis by (simp only: map_nth)
qed

lemma train_output_single_segment:
  assumes "0 < size1 x"
  shows "train_output model 1 x = Inr (log_softmax (model (Frames (map (\<lambda>clip. clip ! 0) (items x)))))"
  using assms
  by (simp add: train_output_def train_logits_def py_range_def select1_def torch_stack_def
      torch_mean0_single)

lemma record_metrics_Inr:
  "record_metrics (losses, top1, top5) loss prec1 prec5 n = Inr (losses', top1', top5') \<Longrightarrow>
     val losses' = loss \<and> val top1' = prec1 \<and> val top5' = prec5 \<and>
     count losses' = count losses + real n \<and> count top1' = count top1 + real n \<and>
     count top5' = count top5 + real n"
  by (auto simp: record_metrics_def update_Inr_iff split: sum.splits)

lemma record_metrics_total:
  assumes "0 < n" "0 \<le> count losses" "0 \<le> count top1" "0 \<le> count top5"
  shows "\<exists>ms'. record_metrics (losses, top1, top5) loss prec1 prec5 n = Inr ms'"
proof -
  from assms have "count losses + real n \<noteq> 0" "count top1 + real n \<noteq> 0" "count top5 + real n \<noteq> 0"
    by simp_all
  then obtain l t1 t5 where "update losses loss (real n) = Inr l" "update top1 prec1 (real n) = Inr t1"
    "update top5 prec5 (real n) = Inr t5"
    by (auto simp: update_Inr_iff)
  then show ?thesis by (simp add: record_metrics_def)
qed

lemma record_metrics_Inr_iff:
  "record_metrics (l, t1, t5) loss p1 p5 n = Inr (l', t1', t5') \<longleftrightarrow>
     update l loss (real n) = Inr l' \<and> update t1 p1 (real n) = Inr t1' \<and>
     update t5 p5 (real n) = Inr t5'"
  by (auto simp: record_metrics_def split: sum.splits)

lemma validate_batch_Inr:
  assumes "validate_batch sel model criterion (x, target, name) (l, t1, t5) = Inr (l', t1', t5')"
  shows "\<exists>res. accuracy sel (model (Clips x)) target [1, 5] = Inr res \<and>
     update l (criterion (model (Clips x)) target) (real (size0 x)) = Inr l' \<and>
     update t1 (res ! 0) (real (size0 x)) = Inr t1' \<and>
     update t5 (res ! 1) (real (size0 x)) = Inr t5'"
proof (cases "accuracy sel (model (Clips x)) target [1, 5]")
  case (Inl e)
  with assms show ?thesis by (simp add: validate_batch_def Let_def)
next
  case (Inr res)
  with assms have "record_metrics (l, t1, t5) (criterion (model (Clips x)) target)
      (res ! 0) (res ! 1) (size0 x) = Inr (l', t1', t5')"
    by (simp add: validate_batch_def Let_def)
  with Inr show ?thesis by (simp only: record_metrics_Inr_iff) blast
qed

lemma validate_loop_Inr:
  assumes "validate_loop sel model criterion bs (l, t1, t5) = Inr (l', t1', t5')"
  shows "\<exists>ress.
     list_all2 (\<lambda>b res. accuracy sel (model (Clips (fst b))) (fst (snd b)) [1, 5] = Inr res) bs ress \<and>
     updates l (map2 (\<lambda>b res. (criterion (model (Clips (fst b))) (fst (snd b)), real (size0 (fst b)))) bs ress)
       = Inr l' \<and>
     updates t1 (map2 (\<lambda>b res. (res ! 0, real (size0 (fst b)))) bs ress) = Inr t1' \<and>
     updates t5 (map2 (\<lambda>b res. (res ! 1, real (size0 (fst b)))) bs ress) = Inr t5'"
  using assms
proof (induction bs arbitrary: l t1 t5)
  case Nil
  then show ?case by simp
next
  case (Cons b bs)
  obtain x target name where b: "b = (x, target, name)" by (cases b)
  from Cons.prems b obtain ms1 where
      vb: "validate_batch sel model criterion (x, target, name) (l, t1, t5) = Inr ms1"
      and vl: "validate_loop sel model criterion bs ms1 = Inr (l', t1', t5')"
    by (auto split: sum.splits)
  obtain l1 t11 t51 where ms1: "ms1 = (l1, t11, t51)" by (cases ms1)
  from validate_batch_Inr[OF vb[unfolded ms1]] obtain res where
      res: "accuracy sel (model (Clips x)) target [1, 5] = Inr res"
      "update l (criterion (model (Clips x)) target) (real (size0 x)) = Inr l1"
      "update t1 (res ! 0) (real (size0 x)) = Inr t11"
      "update t5 (res ! 1) (real (size0 x)) = Inr t51"
    by blast
  from Cons.IH[OF vl[unfolded ms1]] obtain ress where
      ress: "list_all2 (\<lambda>b res. accuracy sel (model (Clips (fst b))) (fst (snd b)) [1, 5] = Inr res) bs ress"
      "updates l1 (map2 (\<lambda>b res. (criterion (model (Clips (fst b))) (fst (snd b)), real (size0 (fst b)))) bs ress)
         = Inr l'"
      "updates t11 (map2 (\<lambda>b res. (res ! 0, real (size0 (fst b)))) bs ress) = Inr t1'"
      "updates t51 (map2 (\<lambda>b res. (res ! 1, real (size0 (fst b)))) bs ress) = Inr t5'"
    by blast
  show ?case
    using res ress by (intro exI[of _ "res # ress"]) (simp add: b)
qed

lemma validate_loop_agree:
  assumes "\<forall>b\<in>set bs. model (Clips (fst b)) = model' (Clips (fst b))"
  shows "validate_loop sel model criterion bs ms = validate_loop sel model' criterion bs ms"
  using assms
proof (induction bs arbitrary: ms)
  case Nil
  show ?case by simp
next
  case (Cons b bs)
  obtain x target name where b: "b = (x, target, name)" by (cases b)
  with Cons.prems have "model (Clips x) = model' (Clips x)" by simp
  then have "validate_batch sel model criterion b ms = validate_batch sel model' criterion b ms"
    by (simp add: validate_batch_def b)
  with Cons show ?case by (simp split: sum.splits)
qed

lemma validate_loop_total:
  assumes "0 \<le> count l" "0 \<le> count t1" "0 \<le> count t5"
    and "\<forall>b\<in>set bs. 0 < size0 (fst b) \<and>
           (\<exists>res. accuracy sel (model (Clips (fst b))) (fst (snd b)) [1, 5] = Inr res)"
  shows "\<exists>ms'. validate_loop sel model criterion bs (l, t1, t5) = Inr ms'"
  using assms
proof (induction bs arbitrary: l t1 t5)
  case Nil
  show ?case by simp
next
  case (Cons b bs)
  obtain x target name where b: "b = (x, target, name)" by (cases b)
  from Cons.prems(4) b obtain res where n: "0 < size0 x"
      and res: "accuracy sel (model (Clips x)) target [1, 5] = Inr res"
    by auto
  from record_metrics_total[OF n Cons.prems(1-3)] obtain ms1 where
      rm: "record_metrics (l, t1, t5) (criterion (model (Clips x)) target) (res ! 0) (res ! 1) (size0 x)
             = Inr ms1"
    by blast
  obtain l1 t11 t51 where ms1: "ms1 = (l1, t11, t51)" by (cases ms1)
  from record_metrics_Inr[OF rm[unfolded ms1]] Cons.prems(1-3)
  have c: "0 \<le> count l1" "0 \<le> count t11" "0 \<le> count t51" by simp_all
  from Cons.prems(4) have rest: "\<forall>b\<in>set bs. 0 < size0 (fst b) \<and>
           (\<exists>res. accuracy sel (model (Clips (fst b))) (fst (snd b)) [1, 5] = Inr res)"
    by simp
  have vb: "validate_batch sel model criterion b (l, t1, t5) = Inr (l1, t11, t51)"
    using res rm ms1 by (simp add: validate_batch_def b Let_def)
  from Cons.IH[OF c rest] obtain ms' where
      "validate_loop sel model criterion bs (l1, t11, t51) = Inr ms'" by blast
  with vb show ?case by (cases ms') auto
qed

text \<open>
  Claim C3. \<^verbatim>\<open>validate\<close> over a whole loader. Its result depends on the model only through
  the model's output on each batch as received: two models that agree on the whole batches
  give the same result, whatever they do on slices of a batch. When the loop ends without
  exception there is, for each batch in order, the result of \<^verbatim>\<open>accuracy\<close> with ranks 1 and 5
  on that raw output, and the three trackers are those obtained from new trackers by
  updating, batch after batch and with the batch size as weight, with the criterion of the
  raw output and the labels, with the first and with the second entry of that result (no
  mean over segments and no log-softmax: this holds for every model, criterion and ranking
  primitive); the value returned is the average of the top-1 tracker. The loop ends without
  exception when no batch is empty and \<^verbatim>\<open>accuracy\<close> raises on none.
\<close>

theorem validate_uses_raw_model_output:
  "((\<forall>b\<in>set val_loader. model (Clips (fst b)) = model' (Clips (fst b))) \<longrightarrow>
      validate sel model criterion val_loader = validate sel model' criterion val_loader) \<and>
   (validate_loop sel model criterion val_loader
        (AverageMeter_init, AverageMeter_init, AverageMeter_init) = Inr (losses, top1, top5) \<longrightarrow>
      (\<exists>ress.
         list_all2 (\<lambda>b res. accuracy sel (model (Clips (fst b))) (fst (snd b)) [1, 5] = Inr res)
           val_loader ress \<and>
         updates AverageMeter_init
           (map2 (\<lambda>b res. (criterion (model (Clips (fst b))) (fst (snd b)), real (size0 (fst b))))
              val_loader ress) = Inr losses \<and>
         updates AverageMeter_init (map2 (\<lambda>b res. (res ! 0, real (size0 (fst b)))) val_loader ress)
           = Inr top1 \<and>
         updates AverageMeter_init (map2 (\<lambda>b res. (res ! 1, real (size0 (fst b)))) val_loader ress)
           = Inr top5 \<and>
         validate sel model criterion val_loader = Inr (avg top1))) \<and>
   ((\<forall>b\<in>set val_loader. 0 < size0 (fst b) \<and>
        (\<exists>res. accuracy sel (model (Clips (fst b))) (fst (snd b)) [1, 5] = Inr res)) \<longrightarrow>
      (\<exists>v. validate sel model criterion val_loader = Inr v))"
proof (intro conjI impI)
  assume "\<forall>b\<in>set val_loader. model (Clips (fst b)) = model' (Clips (fst b))"
  then have "validate_loop sel model criterion val_loader
        (AverageMeter_init, AverageMeter_init, AverageMeter_init) =
      validate_loop sel model' criterion val_loader
        (AverageMeter_init, AverageMeter_init, AverageMeter_init)"
    by (rule validate_loop_agree)
  then show "validate sel model criterion val_loader = validate sel model' criterion val_loader"
    by (simp only: validate_def)
next
  assume r: "validate_loop sel model criterion val_loader
      (AverageMeter_init, AverageMeter_init, AverageMeter_init) = Inr (losses, top1, top5)"
  then have v: "validate sel model criterion val_loader = Inr (avg top1)"
    by (simp add: validate_def)
  from validate_loop_Inr[OF r] v
  show "\<exists>ress.
         list_all2 (\<lambda>b res. accuracy sel (model (Clips (fst b))) (fst (snd b)) [1, 5] = Inr res)
           val_loader ress \<and>
         updates AverageMeter_init
           (map2 (\<lambda>b res. (criterion (model (Clips (fst b))) (fst (snd b)), real (size0 (fst b))))
              val_loader ress) = Inr losses \<and>
         updates AverageMeter_init (map2 (\<lambda>b res. (res ! 0, real (size0 (fst b)))) val_loader ress)
           = Inr top1 \<and>
         updates AverageMeter_init (map2 (\<lambda>b res. (res ! 1, real (size0 (fst b)))) val_loader ress)
           = Inr top5 \<and>
         validate sel model criterion val_loader = Inr (avg top1)"
    by blast
next
  assume h: "\<forall>b\<in>set val_loader. 0 < size0 (fst b) \<and>
      (\<exists>res. accuracy sel (model (Clips (fst b))) (fst (snd b)) [1, 5] = Inr res)"
  have c: "0 \<le> count AverageMeter_init" by (simp add: AverageMeter_init_def reset_def)
  from validate_loop_total[OF c c c h, of criterion] obtain ms' where
      "validate_loop sel model criterion val_loader
         (AverageMeter_init, AverageMeter_init, AverageMeter_init) = Inr ms'"
    by blast
  then show "\<exists>v. validate sel model criterion val_loader = Inr v"
    by (cases ms') (simp add: validate_def)
qed

text \<open>
  Two batches of one clip, with labels 0 and 1, and two models that agree on the batches but
  differ on frame lists.
\<close>

lemma demo_validate_pass:
  "validate_loop topk_stable demo_model demo_criterion demo_loader
     (AverageMeter_init, AverageMeter_init, AverageMeter_init) =
   Inr (\<lparr>val = 0, avg = - 2, sum_acc = - 4, count = 2\<rparr>,
        \<lparr>val = 0, avg = 50, sum_acc = 100, count = 2\<rparr>,
        \<lparr>val = 100, avg = 100, sum_acc = 200, count = 2\<rparr>)"
  by code_simp

lemma demo_raw_accuracy:
  "accuracy topk_stable (demo_model (Clips demo_input)) [0] [1, 5] = Inr [100, 100]"
  "accuracy topk_stable (demo_model (Clips demo_input)) [1] [1, 5] = Inr [0, 100]"
  by code_simp+

theorem validate_uses_raw_model_output_witness:
  "demo_model (Clips demo_input) = demo_model' (Clips demo_input) \<and>
   demo_model (Frames [1]) \<noteq> demo_model' (Frames [1]) \<and>
   0 < size0 demo_input \<and>
   accuracy topk_stable (demo_model (Clips demo_input)) [0] [1, 5] = Inr [100, 100] \<and>
   accuracy topk_stable (demo_model (Clips demo_input)) [1] [1, 5] = Inr [0, 100] \<and>
   validate topk_stable demo_model demo_criterion demo_loader = Inr 50 \<and>
   validate topk_stable demo_model' demo_criterion demo_loader = Inr 50"
proof -
  have eq: "demo_model (Clips demo_input) = demo_model' (Clips demo_input)"
    by (simp add: demo_model_def demo_model'_def)
  have ne: "demo_model (Frames [1]) \<noteq> demo_model' (Frames [1])"
    by (simp add: demo_model_def demo_model'_def)
  have n: "0 < size0 demo_input" by (simp add: size0_def demo_input_def)
  note t = validate_uses_raw_model_output[of demo_loader demo_model demo_model' topk_stable demo_criterion]
  from eq have agree: "\<forall>b\<in>set demo_loader. demo_model (Clips (fst b)) = demo_model' (Clips (fst b))"
    by (simp add: demo_loader_def)
  from t[THEN conjunct2, THEN conjunct1, THEN mp, OF demo_validate_pass]
  have v: "validate topk_stable demo_model demo_criterion demo_loader = Inr 50" by auto
  from t[THEN conjunct1, THEN mp, OF agree] v
  have v': "validate topk_stable demo_model' demo_criterion demo_loader = Inr 50" by simp
  from eq ne n demo_raw_accuracy v v' show ?thesis by blast
qed

text \<open>
  Claim C10, amended. For a ranking primitive that sees the scores only through
  comparisons: with the log-softmax of exact real arithmetic, \<^verbatim>\<open>accuracy\<close> gives the same
  result, a list of percentages or the same exception, on \<open>log_softmax output\<close> as on
  \<open>output\<close>, for every label vector and every tuple of ranks; with the float32 log-softmax
  the same holds whenever each row of the result compares its entries as the row of logits
  does, that is when rounding merges no two different logits of a row.
\<close>

theorem accuracy_log_softmax_invariant:
  assumes "topk_order_determined sel"
  shows "accuracy sel (log_softmax output) target topk = accuracy sel output target topk \<and>
    (list_all2 same_order (log_softmax_f32 output) output \<longrightarrow>
       accuracy sel (log_softmax_f32 output) target topk = accuracy sel output target topk)"
  using accuracy_log_softmax[OF assms] accuracy_same_order[OF assms] by blast

text \<open>The row \<open>[0, 8]\<close>, whose two logits stay apart after rounding.\<close>

lemma f32_values: "f32 8 = 8" "f32 9 = 9" "f32 (- 8) = - 8" "f32 (- 1) = - 1"
  by code_simp+

lemma wide_logsum: "8 \<le> ln (1 + exp (8 :: real))" "ln (1 + exp (8 :: real)) \<le> 9"
proof -
  have pos: "0 < 1 + exp (8 :: real)" by (simp add: add_pos_pos)
  have "exp (8 :: real) \<le> 1 + exp 8" by simp
  then show "8 \<le> ln (1 + exp (8 :: real))" by (simp only: ln_ge_iff[OF pos])
  have "(2 :: real) \<le> exp 1" using exp_ge_add_one_self[of "1 :: real"] by simp
  then have "exp (8 :: real) * 2 \<le> exp 8 * exp 1" by (intro mult_left_mono) simp_all
  also have "\<dots> = exp (9 :: real)" by (simp add: exp_add[symmetric])
  finally have "exp (8 :: real) * 2 \<le> exp 9" .
  moreover have "(1 :: real) \<le> exp 8" by simp
  ultimately have "1 + exp (8 :: real) \<le> exp 9" by linarith
  then have "ln (1 + exp (8 :: real)) \<le> ln (exp 9)" using pos by (simp only: ln_le_cancel_iff exp_gt_zero)
  then show "ln (1 + exp (8 :: real)) \<le> 9" by simp
qed

lemma wide_rows_same_order: "list_all2 same_order (log_softmax_f32 [[0, 8]]) [[0, 8]]"
proof -
  let ?c = "f32 (ln (1 + exp (8 :: real)))"
  from f32_mono[OF wide_logsum(1)] f32_mono[OF wide_logsum(2)] have c: "8 \<le> ?c" "?c \<le> 9"
    by (simp_all add: f32_values)
  from c(1) have "0 - ?c \<le> - 8" by simp
  from f32_mono[OF this] have a: "f32 (0 - ?c) \<le> - 8" by (simp add: f32_values)
  from c(2) have "- 1 \<le> 8 - ?c" by simp
  from f32_mono[OF this] have b: "- 1 \<le> f32 (8 - ?c)" by (simp add: f32_values)
  have l: "log_softmax_f32 [[0, 8]] = [[f32 (0 - ?c), f32 (8 - ?c)]]"
    by (simp add: log_softmax_f32_def Let_def)
  have "same_order [f32 (0 - ?c), f32 (8 - ?c)] [0, 8]"
    unfolding same_order_def using a b by (auto simp: less_Suc_eq nth_Cons')
  with l show ?thesis by simp
qed

theorem accuracy_log_softmax_invariant_witness:
  "topk_order_determined topk_stable \<and>
   accuracy topk_stable (log_softmax [[1,5,3],[2,2,1],[0,1,2]]) [1,0,0] [1,3] = Inr [8738133 / 131072, 100] \<and>
   list_all2 same_order (log_softmax_f32 [[0, 8]]) [[0, 8]] \<and>
   accuracy topk_stable (log_softmax_f32 [[0, 8]]) [1] [1] = Inr [100]"
proof -
  note t = accuracy_log_softmax_invariant[OF topk_stable_order_determined]
  have a: "accuracy topk_stable (log_softmax [[1,5,3],[2,2,1],[0,1,2]]) [1,0,0] [1,3] = Inr [8738133 / 131072, 100]"
    using t[THEN conjunct1, of "[[1,5,3],[2,2,1],[0,1,2]]" "[1,0,0]" "[1,3]"] accuracy_example
    by simp
  have r: "accuracy topk_stable [[0, 8]] [1] [1] = Inr [100]" by code_simp
  from t[THEN conjunct2, THEN mp, OF wide_rows_same_order, of "[1]" "[1]"] r
  have b: "accuracy topk_stable (log_softmax_f32 [[0, 8]]) [1] [1] = Inr [100]" by simp
  from a b topk_stable_order_determined wide_rows_same_order show ?thesis by blast
qed

text \<open>
  Two rows whose largest logit exceeds the others by \<open>2 ^ -33\<close>, less than the float32
  spacing near the value of the log-softmax: both rows are rounded to five equal entries.
\<close>

lemma exp_small: "exp (1 / 2 ^ 33 :: real) \<le> 2" "1 \<le> exp (1 / 2 ^ 33 :: real)"
proof -
  have "exp (1 / 2 ^ 33 :: real) \<le> 1 + 1 / 2 ^ 33 + (1 / 2 ^ 33)\<^sup>2"
    by (rule exp_bound) simp_all
  also have "\<dots> \<le> 2" by (simp add: power2_eq_square)
  finally show "exp (1 / 2 ^ 33 :: real) \<le> 2" .
  show "1 \<le> exp (1 / 2 ^ 33 :: real)" by simp
qed

lemma logsum_bounds:
  "1 \<le> ln (4 + exp (1 / 2 ^ 33 :: real))" "ln (4 + exp (1 / 2 ^ 33 :: real)) \<le> 31 / 16"
proof -
  let ?S = "4 + exp (1 / 2 ^ 33 :: real)"
  have S: "5 \<le> ?S" "?S \<le> 6" using exp_small by simp_all
  have Spos: "0 < ?S" using S(1) by linarith
  have "exp 1 \<le> ?S" using exp_le S(1) by linarith
  then show "1 \<le> ln ?S" by (simp only: ln_ge_iff[OF Spos])
  have "(6 :: real) \<le> (1 + 31 / 256) ^ 16" by code_simp
  also have "\<dots> \<le> exp (31 / 256) ^ 16"
  proof (rule power_mono)
    show "1 + 31 / 256 \<le> exp (31 / 256 :: real)" by (rule exp_ge_add_one_self)
    show "(0 :: real) \<le> 1 + 31 / 256" by simp
  qed
  also have "\<dots> = exp (of_nat 16 * (31 / 256))" by (simp only: exp_of_nat_mult)
  also have "\<dots> = exp (31 / 16)" by simp
  finally have "?S \<le> exp (31 / 16)" using S(2) by linarith
  then have "ln ?S \<le> ln (exp (31 / 16))" using Spos by (simp only: ln_le_cancel_iff exp_gt_zero)
  then show "ln ?S \<le> 31 / 16" by simp
qed

lemma logsum_float:
  "\<exists>k. 2 ^ 23 \<le> k \<and> k < 2 ^ 24 \<and> f32 (ln (4 + exp (1 / 2 ^ 33 :: real))) = of_int k / 2 ^ 23"
proof -
  let ?y = "ln (4 + exp (1 / 2 ^ 33 :: real))"
  let ?k = "rhe (?y * 2 ^ 23)"
  note b = logsum_bounds
  have "f32 ?y = sgn ?y * of_int (rhe (\<bar>?y\<bar> / 2 powi (0 - 23))) * 2 powi (0 - 23)"
    using b by (intro f32_eq) simp_all
  moreover have "sgn ?y = 1" "\<bar>?y\<bar> = ?y" using b(1) by simp_all
  moreover have "?y / 2 powi (0 - 23) = ?y * 2 ^ 23" by (simp add: power_int_minus)
  ultimately have eq: "f32 ?y = of_int ?k / 2 ^ 23" by (simp add: power_int_minus)
  have "rhe (of_int (2 ^ 23)) \<le> ?k" using b(1) by (intro rhe_mono) simp
  then have lo: "2 ^ 23 \<le> ?k" by (simp only: rhe_of_int)
  have "?k \<le> rhe (of_int (31 * 2 ^ 19))" using b(2) by (intro rhe_mono) simp
  then have "?k \<le> 31 * 2 ^ 19" by (simp only: rhe_of_int)
  then have hi: "?k < 2 ^ 24" by simp
  from lo hi eq show ?thesis by blast
qed

lemma merged_rows:
  "\<exists>a. log_softmax_f32 [[1 / 2 ^ 33, 0, 0, 0, 0], [0, 1 / 2 ^ 33, 0, 0, 0]]
        = [[a, a, a, a, a], [a, a, a, a, a]]"
proof -
  let ?c = "f32 (ln (4 + exp (1 / 2 ^ 33 :: real)))"
  obtain k where k: "2 ^ 23 \<le> k" "k < 2 ^ 24" "?c = of_int k / 2 ^ 23"
    using logsum_float by blast
  have z: "f32 (0 - ?c) = - ?c"
    unfolding k(3) using k(1,2) by (intro f32_absorb) simp_all
  have d: "f32 (1 / 2 ^ 33 - ?c) = - ?c"
    unfolding k(3) using k(1,2) by (intro f32_absorb) simp_all
  have "log_softmax_f32 [[1 / 2 ^ 33, 0, 0, 0, 0], [0, 1 / 2 ^ 33, 0, 0, 0]]
      = [[- ?c, - ?c, - ?c, - ?c, - ?c], [- ?c, - ?c, - ?c, - ?c, - ?c]]"
    using z d by (simp add: log_softmax_f32_def Let_def add.commute)
  then show ?thesis by blast
qed

lemma half_rate: "f32 (f32 (f64 50)) = 50"
  by code_simp

lemma accuracy_equal_rows:
  "accuracy topk_stable [[a, a, a, a, a], [a, a, a, a, a]] [0, 1] [1] = Inr [50]"
  by (simp add: accuracy_def py_max_def torch_topk_def topk_stable_def tensor_t_def
      expand_as_row_def correct_k_def py_slice_to_def Let_def upt_rec half_rate)

text \<open>
  Claim C10 as stated fails: top-1 accuracy is 100 on the logits and 50 on their float32
  log-softmax.
\<close>

theorem accuracy_log_softmax_merges_logits:
  "accuracy topk_stable [[1 / 2 ^ 33, 0, 0, 0, 0], [0, 1 / 2 ^ 33, 0, 0, 0]] [0, 1] [1] = Inr [100] \<and>
   accuracy topk_stable (log_softmax_f32 [[1 / 2 ^ 33, 0, 0, 0, 0], [0, 1 / 2 ^ 33, 0, 0, 0]])
     [0, 1] [1] = Inr [50]"
proof -
  have "accuracy topk_stable [[1 / 2 ^ 33, 0, 0, 0, 0], [0, 1 / 2 ^ 33, 0, 0, 0]] [0, 1] [1] = Inr [100]"
    by code_simp
  moreover have "accuracy topk_stable (log_softmax_f32 [[1 / 2 ^ 33, 0, 0, 0, 0], [0, 1 / 2 ^ 33, 0, 0, 0]])
     [0, 1] [1] = Inr [50]"
    using merged_rows accuracy_equal_rows by auto
  ultimately show ?thesis by blast
qed

section \<open>Properties of save_checkpoint\<close>

lemma dirname_append_name:
  assumes "CHR ''/'' \<notin> set s"
  shows "dirname (p @ s) = dirname p"
proof -
  have "\<And>x. x \<in> set (rev s) \<Longrightarrow> x \<noteq> CHR ''/''" using assms by (metis set_rev)
  then have "dropWhile (\<lambda>c. c \<noteq> CHR ''/'') (rev s @ rev p) = dropWhile (\<lambda>c. c \<noteq> CHR ''/'') (rev p)"
    by (rule dropWhile_append2)
  then show ?thesis by (simp add: dirname_def)
qed

lemma dir_head_prefix:
  "\<exists>t. q = rev (dropWhile (\<lambda>c. c \<noteq> CHR ''/'') (rev q)) @ t"
proof -
  have "rev q = takeWhile (\<lambda>c. c \<noteq> CHR ''/'') (rev q) @ dropWhile (\<lambda>c. c \<noteq> CHR ''/'') (rev q)"
    by (simp only: takeWhile_dropWhile_id)
  then have "rev (rev q) = rev (takeWhile (\<lambda>c. c \<noteq> CHR ''/'') (rev q) @ dropWhile (\<lambda>c. c \<noteq> CHR ''/'') (rev q))"
    by (rule arg_cong)
  then have "q = rev (dropWhile (\<lambda>c. c \<noteq> CHR ''/'') (rev q)) @ rev (takeWhile (\<lambda>c. c \<noteq> CHR ''/'') (rev q))"
    by (simp only: rev_rev_ident rev_append)
  then show ?thesis by (rule exI)
qed

lemma dir_head_save_models:
  "rev (dropWhile (\<lambda>c. c \<noteq> CHR ''/'') (rev (''save_models/'' @ q)))
     = ''save_models/'' @ rev (dropWhile (\<lambda>c. c \<noteq> CHR ''/'') (rev q))"
proof (cases "CHR ''/'' \<in> set q")
  case True
  then have "CHR ''/'' \<in> set (rev q)" by (simp only: set_rev)
  moreover have "\<not> CHR ''/'' \<noteq> CHR ''/''" by (simp only: not_not)
  ultimately have "dropWhile (\<lambda>c. c \<noteq> CHR ''/'') (rev q @ rev ''save_models/'')
      = dropWhile (\<lambda>c. c \<noteq> CHR ''/'') (rev q) @ rev ''save_models/''"
    by (rule dropWhile_append1)
  then have "rev (dropWhile (\<lambda>c. c \<noteq> CHR ''/'') (rev q @ rev ''save_models/''))
      = rev (dropWhile (\<lambda>c. c \<noteq> CHR ''/'') (rev q) @ rev ''save_models/'')"
    by (rule arg_cong)
  then show ?thesis by (simp only: rev_append rev_rev_ident)
next
  case False
  then have all: "\<And>x. x \<in> set (rev q) \<Longrightarrow> x \<noteq> CHR ''/''" by (metis set_rev)
  then have 1: "dropWhile (\<lambda>c. c \<noteq> CHR ''/'') (rev q @ rev ''save_models/'')
      = dropWhile (\<lambda>c. c \<noteq> CHR ''/'') (rev ''save_models/'')"
    by (rule dropWhile_append2)
  have 2: "dropWhile (\<lambda>c. c \<noteq> CHR ''/'') (rev ''save_models/'') = rev ''save_models/''"
    by simp
  from all have 3: "dropWhile (\<lambda>c. c \<noteq> CHR ''/'') (rev q) = []"
    by (simp only: dropWhile_eq_Nil_conv) blast
  have "rev (dropWhile (\<lambda>c. c \<noteq> CHR ''/'') (rev q @ rev ''save_models/'')) = ''save_models/''"
    by (simp only: 1 2 rev_rev_ident)
  then show ?thesis by (simp only: rev_append 3 rev.simps append_Nil2)
qed

lemma dirname_via_head:
  "dirname p =
     (if rev (dropWhile (\<lambda>c. c \<noteq> CHR ''/'') (rev p)) \<noteq> [] \<and>
         (\<exists>c\<in>set (rev (dropWhile (\<lambda>c. c \<noteq> CHR ''/'') (rev p))). c \<noteq> CHR ''/'')
      then rev (dropWhile (\<lambda>c. c = CHR ''/'') (rev (rev (dropWhile (\<lambda>c. c \<noteq> CHR ''/'') (rev p)))))
      else rev (dropWhile (\<lambda>c. c \<noteq> CHR ''/'') (rev p)))"
  by (simp only: dirname_def Let_def)

lemma dirname_save_models:
  assumes rel: "q = [] \<or> hd q \<noteq> CHR ''/''"
  shows "dirname (''save_models/'' @ q) =
     (if dirname q = [] then ''save_models'' else ''save_models/'' @ dirname q)"
proof -
  define hq where "hq = rev (dropWhile (\<lambda>c. c \<noteq> CHR ''/'') (rev q))"
  have head: "rev (dropWhile (\<lambda>c. c \<noteq> CHR ''/'') (rev (''save_models/'' @ q))) = ''save_models/'' @ hq"
    unfolding hq_def by (rule dir_head_save_models)
  have dq: "dirname q =
      (if hq \<noteq> [] \<and> (\<exists>c\<in>set hq. c \<noteq> CHR ''/'')
       then rev (dropWhile (\<lambda>c. c = CHR ''/'') (rev hq)) else hq)"
    unfolding hq_def by (rule dirname_via_head)
  have dx: "dirname (''save_models/'' @ q) =
      rev (dropWhile (\<lambda>c. c = CHR ''/'') (rev (''save_models/'' @ hq)))"
    unfolding dirname_via_head[of "''save_models/'' @ q"] head by simp
  show ?thesis
  proof (cases "hq = []")
    case True
    with dq have "dirname q = []" by simp
    moreover from dx True have "dirname (''save_models/'' @ q) = ''save_models''" by simp
    ultimately show ?thesis by simp
  next
    case False
    obtain t where t: "q = hq @ t" using dir_head_prefix[of q] unfolding hq_def by blast
    from False obtain c cs where hq: "hq = c # cs" by (cases hq) blast+
    with t have "hd q = c" by simp
    moreover from t hq have "q \<noteq> []" by simp
    ultimately have c: "c \<noteq> CHR ''/''" using rel by blast
    with hq have ns: "\<exists>c\<in>set hq. c \<noteq> CHR ''/''" by simp
    from c hq have x: "c \<in> set (rev hq)" "\<not> c = CHR ''/''" by simp_all
    then have strip: "dropWhile (\<lambda>c. c = CHR ''/'') (rev hq @ rev ''save_models/'')
        = dropWhile (\<lambda>c. c = CHR ''/'') (rev hq) @ rev ''save_models/''"
      by (rule dropWhile_append1)
    from dq False ns have dq': "dirname q = rev (dropWhile (\<lambda>c. c = CHR ''/'') (rev hq))"
      by simp
    have "dropWhile (\<lambda>c. c = CHR ''/'') (rev hq) \<noteq> []"
      using x by (simp only: dropWhile_eq_Nil_conv) blast
    with dq' have ne: "dirname q \<noteq> []" by simp
    have "dirname (''save_models/'' @ q)
        = rev (dropWhile (\<lambda>c. c = CHR ''/'') (rev hq @ rev ''save_models/''))"
      unfolding dx by (simp only: rev_append)
    also have "\<dots> = rev (dropWhile (\<lambda>c. c = CHR ''/'') (rev hq) @ rev ''save_models/'')"
      by (simp only: strip)
    also have "\<dots> = ''save_models/'' @ rev (dropWhile (\<lambda>c. c = CHR ''/'') (rev hq))"
      by (simp only: rev_append rev_rev_ident)
    finally show ?thesis using dq' ne by simp
  qed
qed

lemma checkpoint_path_relative:
  assumes "pref = [] \<or> hd pref \<noteq> CHR ''/''"
  shows "checkpoint_path pref = ''save_models/'' @ pref @ ''_checkpoint.pth.tar''"
  using assms by (cases pref) (simp_all add: checkpoint_path_def underscore_join_def os_path_join_def)

lemma checkpoint_path_absolute:
  assumes "pref \<noteq> []" "hd pref = CHR ''/''"
  shows "checkpoint_path pref = pref @ ''_checkpoint.pth.tar''"
  using assms by (cases pref) (simp_all add: checkpoint_path_def underscore_join_def os_path_join_def)

lemma save_checkpoint_written:
  "save_checkpoint pref state is_best fs (checkpoint_path pref) = Some state"
  by (simp add: save_checkpoint_def Let_def)

text \<open>
  Claim C9, amended. When \<^verbatim>\<open>args.snapshot_pref\<close> is not an absolute path, the checkpoint is
  written to \<^verbatim>\<open>save_models/<snapshot_pref>_checkpoint.pth.tar\<close> and, when \<open>is_best\<close> holds,
  copied to \<^verbatim>\<open><snapshot_pref>_model_best.pth.tar\<close>. The directory of the checkpoint is
  \<^verbatim>\<open>save_models\<close> joined with the directory of the best-model file, so the two files are in
  different directories. Without \<open>is_best\<close> the best-model file is left as it was.
\<close>

theorem save_checkpoint_directories:
  assumes rel: "pref = [] \<or> hd pref \<noteq> CHR ''/''"
  shows "checkpoint_path pref = ''save_models/'' @ pref @ ''_checkpoint.pth.tar'' \<and>
         best_path pref = pref @ ''_model_best.pth.tar'' \<and>
         dirname (checkpoint_path pref) =
           (if dirname (best_path pref) = [] then ''save_models''
            else ''save_models/'' @ dirname (best_path pref)) \<and>
         dirname (checkpoint_path pref) \<noteq> dirname (best_path pref) \<and>
         save_checkpoint pref state True fs (checkpoint_path pref) = Some state \<and>
         save_checkpoint pref state True fs (best_path pref) = Some state \<and>
         save_checkpoint pref state False fs (checkpoint_path pref) = Some state \<and>
         save_checkpoint pref state False fs (best_path pref) = fs (best_path pref)"
proof -
  have cp: "checkpoint_path pref = ''save_models/'' @ pref @ ''_checkpoint.pth.tar''"
    by (rule checkpoint_path_relative[OF rel])
  have bp: "best_path pref = pref @ ''_model_best.pth.tar''"
    by (simp add: best_path_def underscore_join_def)
  have d1: "dirname (pref @ ''_checkpoint.pth.tar'') = dirname pref"
    by (rule dirname_append_name) simp
  have d2: "dirname (pref @ ''_model_best.pth.tar'') = dirname pref"
    by (rule dirname_append_name) simp
  have rel': "pref @ ''_checkpoint.pth.tar'' = [] \<or> hd (pref @ ''_checkpoint.pth.tar'') \<noteq> CHR ''/''"
    using rel by (cases pref) auto
  have dc: "dirname (checkpoint_path pref) =
      (if dirname pref = [] then ''save_models'' else ''save_models/'' @ dirname pref)"
    unfolding cp using dirname_save_models[OF rel'] d1 by simp
  have dd: "dirname (checkpoint_path pref) =
           (if dirname (best_path pref) = [] then ''save_models''
            else ''save_models/'' @ dirname (best_path pref))"
    using dc d2 bp by simp
  have ne: "dirname (checkpoint_path pref) \<noteq> dirname (best_path pref)"
  proof
    assume "dirname (checkpoint_path pref) = dirname (best_path pref)"
    then have "length (dirname (checkpoint_path pref)) = length (dirname (best_path pref))" by simp
    with dd show False by (simp split: if_splits)
  qed
  then have pne: "checkpoint_path pref \<noteq> best_path pref" by auto
  have "save_checkpoint pref state True fs (best_path pref) = Some state"
    by (simp add: save_checkpoint_def Let_def)
  moreover have "save_checkpoint pref state False fs (best_path pref) = fs (best_path pref)"
    using pne by (simp add: save_checkpoint_def Let_def)
  ultimately show ?thesis
    using cp bp dd ne save_checkpoint_written by blast
qed

text \<open>The prefix \<^verbatim>\<open>run\<close>.\<close>

lemma demo_paths:
  "checkpoint_path ''run'' = ''save_models/run_checkpoint.pth.tar''"
  "best_path ''run'' = ''run_model_best.pth.tar''"
  "dirname ''save_models/run_checkpoint.pth.tar'' = ''save_models''"
  "dirname ''run_model_best.pth.tar'' = []"
  by code_simp+

theorem save_checkpoint_directories_witness:
  "checkpoint_path ''run'' = ''save_models/run_checkpoint.pth.tar'' \<and>
   best_path ''run'' = ''run_model_best.pth.tar'' \<and>
   dirname (checkpoint_path ''run'') = ''save_models'' \<and>
   dirname (best_path ''run'') = [] \<and>
   dirname (checkpoint_path ''run'') \<noteq> dirname (best_path ''run'') \<and>
   save_checkpoint ''run'' demo_checkpoint True Map.empty (best_path ''run'')
     = Some demo_checkpoint \<and>
   save_checkpoint ''run'' demo_checkpoint False Map.empty (best_path ''run'') = None"
proof -
  have rel: "''run'' = [] \<or> hd ''run'' \<noteq> CHR ''/''" by simp
  note t = save_checkpoint_directories[OF rel, of demo_checkpoint Map.empty]
  from t have ne: "dirname (checkpoint_path ''run'') \<noteq> dirname (best_path ''run'')" by blast
  from t have s1: "save_checkpoint ''run'' demo_checkpoint True Map.empty (best_path ''run'')
      = Some demo_checkpoint" by blast
  from t have "save_checkpoint ''run'' demo_checkpoint False Map.empty (best_path ''run'')
      = Map.empty (best_path ''run'')" by blast
  then have s2: "save_checkpoint ''run'' demo_checkpoint False Map.empty (best_path ''run'') = None"
    by (simp only: empty_def)
  have dc: "dirname (checkpoint_path ''run'') = ''save_models''"
    by (simp only: demo_paths)
  have db: "dirname (best_path ''run'') = []"
    by (simp only: demo_paths)
  from demo_paths(1,2) dc db ne s1 s2 show ?thesis by blast
qed

text \<open>
  Claim C9 as stated fails for an absolute prefix: \<^verbatim>\<open>os.path.join\<close> drops \<^verbatim>\<open>save_models\<close>,
  and the checkpoint and the best-model file are side by side in \<^verbatim>\<open>/tmp\<close>.
\<close>

theorem save_checkpoint_absolute_prefix:
  "checkpoint_path ''/tmp/run'' = ''/tmp/run_checkpoint.pth.tar'' \<and>
   best_path ''/tmp/run'' = ''/tmp/run_model_best.pth.tar'' \<and>
   \<not> prefix ''save_models/'' (checkpoint_path ''/tmp/run'') \<and>
   dirname (checkpoint_path ''/tmp/run'') = ''/tmp'' \<and>
   dirname (best_path ''/tmp/run'') = ''/tmp''"
  by code_simp

section \<open>Properties of main\<close>

lemma main_setup_unknown_loss:
  assumes "loss_type a \<noteq> ''nll''" "num_class_of (dataset a) = Inr nc"
  shows "main_setup a env fs =
     Inl (ValueError ''Unknown loss type'',
          ([CreateModel nc, DataParallelCuda] @
             (if finetune a \<noteq> [] \<and> fs (finetune a) \<noteq> None then [LoadFinetune (finetune a)] else []),
           fs))"
  using assms by (simp add: main_setup_def Let_def)

text \<open>
  Claim C5, amended. Every run whose loss type is not \<^verbatim>\<open>'nll'\<close> ends with a \<^verbatim>\<open>ValueError\<close>
  and changes no file. For an unknown dataset the error is that of the dataset and nothing
  was created. For a known dataset the error is \<^verbatim>\<open>Unknown loss type\<close>, raised after the model
  was constructed and placed on the devices (and after the finetune weights were loaded,
  when given and present), and before the criterion, the optimizer, the scheduler, the
  resume, the loaders and any epoch.
\<close>

theorem unknown_loss_type_fails_after_model:
  assumes "loss_type a \<noteq> ''nll''"
  shows "(\<forall>e. num_class_of (dataset a) = Inl e \<longrightarrow> main a env fs = Inl (e, ([], fs))) \<and>
         (\<forall>nc. num_class_of (dataset a) = Inr nc \<longrightarrow>
            main a env fs =
              Inl (ValueError ''Unknown loss type'',
                   ([CreateModel nc, DataParallelCuda] @
                      (if finetune a \<noteq> [] \<and> fs (finetune a) \<noteq> None
                       then [LoadFinetune (finetune a)] else []),
                    fs)))"
proof (intro conjI allI impI)
  fix e assume "num_class_of (dataset a) = Inl e"
  then show "main a env fs = Inl (e, ([], fs))"
    by (simp add: main_def main_setup_def)
next
  fix nc assume "num_class_of (dataset a) = Inr nc"
  note su = main_setup_unknown_loss[OF assms this, of env fs]
  show "main a env fs =
      Inl (ValueError ''Unknown loss type'',
           ([CreateModel nc, DataParallelCuda] @
              (if finetune a \<noteq> [] \<and> fs (finetune a) \<noteq> None
               then [LoadFinetune (finetune a)] else []),
            fs))"
    unfolding main_def su by (simp only: sum.case)
qed

lemma demo_num_class: "num_class_of (dataset bad_loss_args) = Inr 101"
  by (simp add: bad_loss_args_def demo_args_def num_class_of_def)

theorem unknown_loss_type_fails_after_model_witness:
  "loss_type bad_loss_args \<noteq> ''nll'' \<and>
   num_class_of (dataset bad_loss_args) = Inr 101 \<and>
   main bad_loss_args demo_env demo_files =
     Inl (ValueError ''Unknown loss type'', ([CreateModel 101, DataParallelCuda], demo_files))"
proof -
  have l: "loss_type bad_loss_args \<noteq> ''nll''"
    by (simp add: bad_loss_args_def demo_args_def)
  from unknown_loss_type_fails_after_model[OF l, of demo_env demo_files] demo_num_class
  have "main bad_loss_args demo_env demo_files =
      Inl (ValueError ''Unknown loss type'',
           ([CreateModel 101, DataParallelCuda] @
              (if finetune bad_loss_args \<noteq> [] \<and> demo_files (finetune bad_loss_args) \<noteq> None
               then [LoadFinetune (finetune bad_loss_args)] else []),
            demo_files))"
    by blast
  then have "main bad_loss_args demo_env demo_files =
     Inl (ValueError ''Unknown loss type'', ([CreateModel 101, DataParallelCuda], demo_files))"
    by (simp add: bad_loss_args_def demo_args_def)
  with l demo_num_class show ?thesis by blast
qed

text \<open>
  Claim C5 as stated fails: with dataset \<^verbatim>\<open>ucf101\<close> and loss type \<^verbatim>\<open>mse\<close> the model has been
  constructed and placed on the devices when the error is raised.
\<close>

theorem unknown_loss_type_model_created_first:
  "loss_type bad_loss_args \<noteq> ''nll'' \<and>
   final_trace (main bad_loss_args demo_env demo_files) = [CreateModel 101, DataParallelCuda] \<and>
   final_trace (main bad_loss_args demo_env demo_files) \<noteq> []"
  by (simp add: final_trace_def main_def main_setup_def num_class_of_def bad_loss_args_def
      demo_args_def demo_env_def Let_def)

lemma main_epoch_evaluated:
  assumes tr: "train_fn env epoch (model_sd s) (optim_sd s) = Inr (model, optimizer)"
    and ef: "eval_freq a \<noteq> 0"
    and due: "(epoch + 1) mod eval_freq a = 0 \<or> epoch = epochs a - 1"
    and va: "validate_fn env model = Inr prec1"
  shows "main_epoch a env epoch s =
     Inr (s\<lparr>model_sd := model, optim_sd := optimizer,
            best_prec1 := max prec1 (best_prec1 s),
            files := save_checkpoint (snapshot_pref a)
                       \<lparr>ck_epoch = epoch + 1, ck_arch = arch a, ck_state_dict = model,
                        ck_best_prec1 = max prec1 (best_prec1 s), ck_optimizer = optimizer\<rparr>
                       (best_prec1 s < prec1) (files s),
            trace := trace s @ [TrainEpoch epoch, Validate,
                       SaveCheckpoint
                         \<lparr>ck_epoch = epoch + 1, ck_arch = arch a, ck_state_dict = model,
                          ck_best_prec1 = max prec1 (best_prec1 s), ck_optimizer = optimizer\<rparr>
                         (best_prec1 s < prec1)]\<rparr>)"
  using ef due by (simp add: main_epoch_def tr va Let_def)

text \<open>
  Claim C4. In an epoch whose training raises nothing and whose evaluation is due and
  returns the score \<open>prec1\<close>: \<open>is_best\<close> holds exactly when \<open>prec1\<close> is strictly greater than the
  best so far (an equal score leaves it false), the best so far becomes the maximum of the
  two, and \<^verbatim>\<open>save_checkpoint\<close> is called, whatever \<open>is_best\<close> is, with the state of epoch
  \<open>epoch + 1\<close> holding the new best and with \<open>is_best\<close>; the checkpoint file then holds that
  state.
\<close>

theorem checkpoint_after_evaluation:
  assumes tr: "train_fn env epoch (model_sd s) (optim_sd s) = Inr (model, optimizer)"
    and ef: "eval_freq a \<noteq> 0"
    and due: "(epoch + 1) mod eval_freq a = 0 \<or> epoch = epochs a - 1"
    and va: "validate_fn env model = Inr prec1"
  shows "\<exists>s' state is_best.
     main_epoch a env epoch s = Inr s' \<and>
     (is_best \<longleftrightarrow> best_prec1 s < prec1) \<and>
     (prec1 = best_prec1 s \<longrightarrow> \<not> is_best) \<and>
     best_prec1 s' = max prec1 (best_prec1 s) \<and>
     state = \<lparr>ck_epoch = epoch + 1, ck_arch = arch a, ck_state_dict = model,
              ck_best_prec1 = max prec1 (best_prec1 s), ck_optimizer = optimizer\<rparr> \<and>
     trace s' = trace s @ [TrainEpoch epoch, Validate, SaveCheckpoint state is_best] \<and>
     files s' = save_checkpoint (snapshot_pref a) state is_best (files s) \<and>
     files s' (checkpoint_path (snapshot_pref a)) = Some state"
  unfolding main_epoch_evaluated[OF tr ef due va]
  by (simp add: save_checkpoint_written)

theorem checkpoint_after_evaluation_witness:
  "train_fn demo_env 5 (model_sd tie_program) (optim_sd tie_program) = Inr (4, 5) \<and>
   eval_freq demo_args \<noteq> 0 \<and> (5 + 1) mod eval_freq demo_args = 0 \<and>
   validate_fn demo_env 4 = Inr 30 \<and>
   (\<exists>s'. main_epoch demo_args demo_env 5 tie_program = Inr s' \<and> best_prec1 s' = 30 \<and>
      trace s' = [TrainEpoch 5, Validate,
                  SaveCheckpoint \<lparr>ck_epoch = 6, ck_arch = ''shufflenet'', ck_state_dict = 4,
                                  ck_best_prec1 = 30, ck_optimizer = 5\<rparr> False] \<and>
      files s' (checkpoint_path ''run'') =
        Some \<lparr>ck_epoch = 6, ck_arch = ''shufflenet'', ck_state_dict = 4,
              ck_best_prec1 = 30, ck_optimizer = 5\<rparr>)"
proof -
  have tr: "train_fn demo_env 5 (model_sd tie_program) (optim_sd tie_program) = Inr (4, 5)"
    by (simp add: demo_env_def tie_program_def)
  have ef: "eval_freq demo_args \<noteq> 0" by (simp add: demo_args_def)
  have due: "(5 + 1) mod eval_freq demo_args = 0 \<or> 5 = epochs demo_args - 1"
    by (simp add: demo_args_def)
  have va: "validate_fn demo_env 4 = Inr 30" by (simp add: demo_env_def)
  from checkpoint_after_evaluation[OF tr ef due va]
  obtain s' state is_best where s':
      "main_epoch demo_args demo_env 5 tie_program = Inr s'"
      "is_best \<longleftrightarrow> best_prec1 tie_program < 30"
      "best_prec1 s' = max 30 (best_prec1 tie_program)"
      "state = \<lparr>ck_epoch = 5 + 1, ck_arch = arch demo_args, ck_state_dict = 4,
              ck_best_prec1 = max 30 (best_prec1 tie_program), ck_optimizer = 5\<rparr>"
      "trace s' = trace tie_program @ [TrainEpoch 5, Validate, SaveCheckpoint state is_best]"
      "files s' (checkpoint_path (snapshot_pref demo_args)) = Some state"
    by blast
  from s'(2) have nb: "\<not> is_best" by (simp add: tie_program_def)
  from s'(4) have st: "state = \<lparr>ck_epoch = 6, ck_arch = ''shufflenet'', ck_state_dict = 4,
                                  ck_best_prec1 = 30, ck_optimizer = 5\<rparr>"
    by (simp add: tie_program_def demo_args_def)
  from s'(3) have b: "best_prec1 s' = 30" by (simp add: tie_program_def)
  from s'(5) nb st have t: "trace s' = [TrainEpoch 5, Validate,
                  SaveCheckpoint \<lparr>ck_epoch = 6, ck_arch = ''shufflenet'', ck_state_dict = 4,
                                  ck_best_prec1 = 30, ck_optimizer = 5\<rparr> False]"
    by (simp add: tie_program_def)
  from s'(6) st have f: "files s' (checkpoint_path ''run'') =
        Some \<lparr>ck_epoch = 6, ck_arch = ''shufflenet'', ck_state_dict = 4,
              ck_best_prec1 = 30, ck_optimizer = 5\<rparr>"
    by (simp add: demo_args_def)
  from tr ef due va s'(1) b t f show ?thesis
    by (simp add: demo_args_def)
qed

lemma saved_best_append: "saved_best (xs @ ys) = saved_best xs @ saved_best ys"
  by (induction xs rule: saved_best.induct) simp_all

lemma main_epoch_saved:
  "\<exists>ys. saved_best (final_trace (main_epoch a env epoch s)) = saved_best (trace s) @ ys \<and>
        sorted ys \<and> (\<forall>b\<in>set ys. best_prec1 s \<le> b) \<and>
        (\<forall>s'. main_epoch a env epoch s = Inr s' \<longrightarrow>
           best_prec1 s \<le> best_prec1 s' \<and> (\<forall>b\<in>set ys. b \<le> best_prec1 s'))"
proof (cases "train_fn env epoch (model_sd s) (optim_sd s)")
  case (Inl e)
  then have "main_epoch a env epoch s = Inl (e, world_of (s\<lparr>trace := trace s @ [TrainEpoch epoch]\<rparr>))"
    by (simp add: main_epoch_def Let_def)
  then show ?thesis
    by (simp add: final_trace_def world_of_def saved_best_append)
next
  case (Inr mo)
  obtain model optimizer where mo: "mo = (model, optimizer)" by (cases mo)
  note tr = Inr[unfolded mo]
  show ?thesis
  proof (cases "eval_freq a = 0")
    case True
    then have "main_epoch a env epoch s =
        Inl (ZeroDivisionError,
             world_of (s\<lparr>trace := trace s @ [TrainEpoch epoch], model_sd := model, optim_sd := optimizer\<rparr>))"
      by (simp add: main_epoch_def Let_def tr)
    then show ?thesis
      by (simp add: final_trace_def world_of_def saved_best_append)
  next
    case ef: False
    show ?thesis
    proof (cases "(epoch + 1) mod eval_freq a = 0 \<or> epoch = epochs a - 1")
      case False
      then have "main_epoch a env epoch s =
          Inr (s\<lparr>trace := trace s @ [TrainEpoch epoch], model_sd := model, optim_sd := optimizer\<rparr>)"
        using ef by (simp add: main_epoch_def Let_def tr)
      then show ?thesis
        by (simp add: final_trace_def saved_best_append)
    next
      case due: True
      show ?thesis
      proof (cases "validate_fn env model")
        case (Inl e)
        then have "main_epoch a env epoch s =
            Inl (e, world_of (s\<lparr>trace := trace s @ [TrainEpoch epoch], model_sd := model,
                               optim_sd := optimizer,
                               trace := (trace s @ [TrainEpoch epoch]) @ [Validate]\<rparr>))"
          using ef due by (simp add: main_epoch_def Let_def tr)
        then show ?thesis
          by (simp add: final_trace_def world_of_def saved_best_append)
      next
        case (Inr prec1)
        note me = main_epoch_evaluated[OF tr ef due Inr]
        have "saved_best (final_trace (main_epoch a env epoch s))
            = saved_best (trace s) @ [max prec1 (best_prec1 s)]"
          unfolding me by (simp add: final_trace_def saved_best_append)
        moreover have "\<forall>s'. main_epoch a env epoch s = Inr s' \<longrightarrow>
            best_prec1 s \<le> best_prec1 s' \<and> (\<forall>b\<in>set [max prec1 (best_prec1 s)]. b \<le> best_prec1 s')"
          unfolding me by auto
        ultimately show ?thesis
          by (intro exI[of _ "[max prec1 (best_prec1 s)]"]) simp
      qed
    qed
  qed
qed

lemma main_loop_saved:
  "\<exists>xs. saved_best (final_trace (main_loop a env es s)) = saved_best (trace s) @ xs \<and>
        sorted xs \<and> (\<forall>b\<in>set xs. best_prec1 s \<le> b) \<and>
        (\<forall>s'. main_loop a env es s = Inr s' \<longrightarrow> best_prec1 s \<le> best_prec1 s')"
proof (induction es arbitrary: s)
  case Nil
  show ?case by (simp add: final_trace_def)
next
  case (Cons epoch es)
  obtain ys where ys: "saved_best (final_trace (main_epoch a env epoch s)) = saved_best (trace s) @ ys"
      "sorted ys" "\<forall>b\<in>set ys. best_prec1 s \<le> b"
      "\<forall>s'. main_epoch a env epoch s = Inr s' \<longrightarrow>
           best_prec1 s \<le> best_prec1 s' \<and> (\<forall>b\<in>set ys. b \<le> best_prec1 s')"
    using main_epoch_saved[of a env epoch s] by blast
  show ?case
  proof (cases "main_epoch a env epoch s")
    case (Inl ew)
    then have "main_loop a env (epoch # es) s = main_epoch a env epoch s" by simp
    with ys(1-3) Inl show ?thesis by auto
  next
    case (Inr s1)
    then have ml: "main_loop a env (epoch # es) s = main_loop a env es s1" by simp
    from Inr ys(1) have t1: "saved_best (trace s1) = saved_best (trace s) @ ys"
      by (simp add: final_trace_def)
    from Inr ys(4) have b1: "best_prec1 s \<le> best_prec1 s1" "\<forall>b\<in>set ys. b \<le> best_prec1 s1"
      by simp_all
    obtain zs where zs: "saved_best (final_trace (main_loop a env es s1)) = saved_best (trace s1) @ zs"
        "sorted zs" "\<forall>b\<in>set zs. best_prec1 s1 \<le> b"
        "\<forall>s'. main_loop a env es s1 = Inr s' \<longrightarrow> best_prec1 s1 \<le> best_prec1 s'"
      using Cons.IH[of s1] by blast
    have 1: "saved_best (final_trace (main_loop a env (epoch # es) s)) = saved_best (trace s) @ (ys @ zs)"
      unfolding ml zs(1) t1 by simp
    have 2: "sorted (ys @ zs)"
      using ys(2) zs(2,3) b1(2) by (fastforce simp: sorted_append)
    have 3: "\<forall>b\<in>set (ys @ zs). best_prec1 s \<le> b"
      using ys(3) zs(3) b1(1) by fastforce
    have 4: "\<forall>s'. main_loop a env (epoch # es) s = Inr s' \<longrightarrow> best_prec1 s \<le> best_prec1 s'"
      unfolding ml using zs(4) b1(1) by fastforce
    from 1 2 3 4 show ?thesis by blast
  qed
qed

lemma main_setup_saved:
  "(main_setup a env fs = Inl (e, (tr, fs')) \<longrightarrow> saved_best tr = []) \<and>
   (main_setup a env fs = Inr s0 \<longrightarrow> saved_best (trace s0) = [] \<and> files s0 = fs)"
  by (cases "num_class_of (dataset a)")
     (auto simp: main_setup_def Let_def split: if_splits)

lemma main_resume_found:
  assumes "resume a \<noteq> []" "files s0 (resume a) = Some ck"
  shows "main_resume a s0 =
     (ck_epoch ck,
      s0\<lparr>best_prec1 := ck_best_prec1 ck, model_sd := ck_state_dict ck,
         optim_sd := ck_optimizer ck, trace := trace s0 @ [LoadCheckpoint (resume a)]\<rparr>)"
  using assms by (simp add: main_resume_def)

text \<open>
  Claim C8. For a run that resumes from a checkpoint whose \<^verbatim>\<open>best_prec1\<close> is \<open>B\<close>: the
  \<^verbatim>\<open>best_prec1\<close> values of the checkpoints the run saves, in the order they are saved, never
  decrease, each is at least \<open>B\<close>, and so is the global at the end of the run. This holds for
  every collaborator, whatever the validation scores, and also for a run that an exception
  ends.
\<close>

theorem best_prec1_never_decreases:
  assumes res: "resume a \<noteq> []" "fs (resume a) = Some ck"
  shows "sorted (saved_best (final_trace (main a env fs))) \<and>
         (\<forall>b\<in>set (saved_best (final_trace (main a env fs))). ck_best_prec1 ck \<le> b) \<and>
         (\<forall>s. main a env fs = Inr s \<longrightarrow> ck_best_prec1 ck \<le> best_prec1 s)"
proof (cases "main_setup a env fs")
  case (Inl ew)
  obtain e tr fs' where ew: "ew = (e, (tr, fs'))" by (cases ew) auto
  with Inl main_setup_saved[of a env fs e tr fs'] have "saved_best tr = []" by simp
  moreover from Inl ew have "main a env fs = Inl (e, (tr, fs'))" by (simp add: main_def)
  ultimately show ?thesis by (simp add: final_trace_def)
next
  case (Inr s0)
  with main_setup_saved[of a env fs _ _ _ s0] have s0: "saved_best (trace s0) = []" "files s0 = fs"
    by simp_all
  let ?s1 = "s0\<lparr>best_prec1 := ck_best_prec1 ck, model_sd := ck_state_dict ck,
         optim_sd := ck_optimizer ck, trace := trace s0 @ [LoadCheckpoint (resume a)]\<rparr>"
  let ?s2 = "?s1\<lparr>trace := trace ?s1 @ [CreateLoaders]\<rparr>"
  let ?s3 = "?s2\<lparr>trace := trace ?s2 @ [Validate]\<rparr>"
  have mr: "main_resume a s0 = (ck_epoch ck, ?s1)"
    using res s0(2) by (intro main_resume_found) simp_all
  have t2: "saved_best (trace ?s2) = []" and b2: "best_prec1 ?s2 = ck_best_prec1 ck"
    using s0(1) by (simp_all add: saved_best_append)
  show ?thesis
  proof (cases "evaluate a")
    case True
    have t3: "saved_best (trace ?s3) = []" and b3: "best_prec1 ?s3 = ck_best_prec1 ck"
      using s0(1) by (simp_all add: saved_best_append)
    have m: "main a env fs =
        (case validate_fn env (model_sd ?s3) of Inl e \<Rightarrow> Inl (e, world_of ?s3) | Inr prec1 \<Rightarrow> Inr ?s3)"
      using True by (simp add: main_def Inr mr Let_def)
    show ?thesis
    proof (cases "validate_fn env (model_sd ?s3)")
      case (Inl e)
      with m have "main a env fs = Inl (e, world_of ?s3)" by simp
      with t3 show ?thesis by (simp add: final_trace_def world_of_def)
    next
      case (Inr prec1)
      with m have "main a env fs = Inr ?s3" by simp
      with t3 b3 show ?thesis by (simp add: final_trace_def)
    qed
  next
    case False
    then have m: "main a env fs = main_loop a env [ck_epoch ck..epochs a - 1] ?s2"
      by (simp add: main_def Inr mr Let_def)
    obtain xs where xs:
        "saved_best (final_trace (main_loop a env [ck_epoch ck..epochs a - 1] ?s2)) = saved_best (trace ?s2) @ xs"
        "sorted xs" "\<forall>b\<in>set xs. best_prec1 ?s2 \<le> b"
        "\<forall>s'. main_loop a env [ck_epoch ck..epochs a - 1] ?s2 = Inr s' \<longrightarrow> best_prec1 ?s2 \<le> best_prec1 s'"
      using main_loop_saved[of a env "[ck_epoch ck..epochs a - 1]" ?s2] by blast
    have ts: "saved_best (final_trace (main a env fs)) = xs"
      unfolding m xs(1) using t2 by simp
    have "\<forall>b\<in>set xs. ck_best_prec1 ck \<le> b" using xs(3) b2 by simp
    moreover have "\<forall>s. main a env fs = Inr s \<longrightarrow> ck_best_prec1 ck \<le> best_prec1 s"
      unfolding m using xs(4) b2 by simp
    ultimately show ?thesis using ts xs(2) by simp
  qed
qed

text \<open>Resuming at epoch 5 with best 42 and scores of 30 in epochs 5 and 6.\<close>

lemma demo_run_saved:
  "saved_best (final_trace (main demo_args demo_env demo_files)) = [42, 42]"
  by (simp add: main_def main_setup_def main_resume_def main_epoch_def num_class_of_def
      demo_args_def demo_env_def demo_files_def demo_checkpoint_def final_trace_def Let_def
      upto.simps)

theorem best_prec1_never_decreases_witness:
  "resume demo_args \<noteq> [] \<and> demo_files (resume demo_args) = Some demo_checkpoint \<and>
   ck_best_prec1 demo_checkpoint = 42 \<and>
   saved_best (final_trace (main demo_args demo_env demo_files)) = [42, 42] \<and>
   sorted (saved_best (final_trace (main demo_args demo_env demo_files))) \<and>
   42 \<le> hd (saved_best (final_trace (main demo_args demo_env demo_files)))"
proof -
  have r: "resume demo_args \<noteq> []" "demo_files (resume demo_args) = Some demo_checkpoint"
    by (simp_all add: demo_args_def demo_files_def)
  have b: "ck_best_prec1 demo_checkpoint = 42" by (simp add: demo_checkpoint_def)
  from best_prec1_never_decreases[where a = demo_args and fs = demo_files and ck = demo_checkpoint
      and env = demo_env, OF r]
  have "sorted (saved_best (final_trace (main demo_args demo_env demo_files)))" by blast
  with r b demo_run_saved show ?thesis by simp
qed

end
